theory Spec2Isabelle
  imports Complex_Main
begin

section \<open>Numbers, errors and the network graph\<close>

text \<open>
  Python floats are modelled as reals; the one non-real float the routers use,
  \<^verbatim>\<open>float("inf")\<close>, is the constructor \<open>PInf\<close> of an extended type with the
  usual order (every finite value is below \<open>PInf\<close>).
\<close>

datatype ext = Fin real | PInf

instantiation ext :: linorder
begin

fun less_eq_ext :: "ext \<Rightarrow> ext \<Rightarrow> bool" where
  "less_eq_ext (Fin a) (Fin b) = (a \<le> b)"
| "less_eq_ext _ PInf = True"
| "less_eq_ext PInf (Fin b) = False"

definition less_ext :: "ext \<Rightarrow> ext \<Rightarrow> bool" where
  "less_ext a b = (a \<le> b \<and> \<not> b \<le> a)"

instance
proof
  fix x y z :: ext
  show "(x < y) = (x \<le> y \<and> \<not> y \<le> x)" by (simp add: less_ext_def)
  show "x \<le> x" by (cases x) simp_all
  show "x \<le> y \<Longrightarrow> y \<le> z \<Longrightarrow> x \<le> z"
    by (cases x; cases y; cases z) simp_all
  show "x \<le> y \<Longrightarrow> y \<le> x \<Longrightarrow> x = y"
    by (cases x; cases y) simp_all
  show "x \<le> y \<or> y \<le> x"
    by (cases x; cases y) auto
qed

end

type_synonym node = nat

datatype py_error = KeyError | NetworkXError | ZeroDivisionError

text \<open>
  A \<^verbatim>\<open>networkx.Graph\<close> keeps a dictionary of node attributes and, for every
  node, a dictionary from neighbour to the attribute dictionary of the edge. Both are
  association lists here, in iteration order. An attribute that a dictionary may lack
  (\<^verbatim>\<open>.get(key, default)\<close> in the source) is an option.
\<close>

record edge_attrs =
  bandwidth :: "real option"
  delay :: "real option"
  reliability :: "real option"

record node_attrs =
  node_reliability :: "real option"

record graph =
  g_nodes :: "(node \<times> node_attrs) list"
  g_adj :: "node \<Rightarrow> (node \<times> edge_attrs) list"

definition node_ids :: "graph \<Rightarrow> node list" where
  \<comment> \<open>\<^verbatim>\<open>graph.nodes\<close>, iterated\<close>
  "node_ids g = map fst (g_nodes g)"

definition nbrs :: "graph \<Rightarrow> node \<Rightarrow> node list" where
  "nbrs g u = map fst (g_adj g u)"

definition neighbors :: "graph \<Rightarrow> node \<Rightarrow> py_error + node list" where
  \<comment> \<open>\<^verbatim>\<open>graph.neighbors(u)\<close> raises for a node that is not in the graph\<close>
  "neighbors g u = (if u \<in> set (node_ids g) then Inr (nbrs g u) else Inl NetworkXError)"

definition edge_lookup :: "graph \<Rightarrow> node \<Rightarrow> node \<Rightarrow> py_error + edge_attrs" where
  \<comment> \<open>\<^verbatim>\<open>graph.edges[u, v]\<close>\<close>
  "edge_lookup g u v = (case map_of (g_adj g u) v of None \<Rightarrow> Inl KeyError | Some a \<Rightarrow> Inr a)"

definition node_lookup :: "graph \<Rightarrow> node \<Rightarrow> py_error + node_attrs" where
  \<comment> \<open>\<^verbatim>\<open>graph.nodes[n]\<close>\<close>
  "node_lookup g n = (case map_of (g_nodes g) n of None \<Rightarrow> Inl KeyError | Some a \<Rightarrow> Inr a)"

definition get_or :: "'a option \<Rightarrow> 'a \<Rightarrow> 'a" where
  \<comment> \<open>\<^verbatim>\<open>d.get(key, default)\<close> on an attribute that may be absent\<close>
  "get_or x d = (case x of None \<Rightarrow> d | Some v \<Rightarrow> v)"

fun edge_pairs :: "'a list \<Rightarrow> ('a \<times> 'a) list" where
  \<comment> \<open>\<^verbatim>\<open>(path[i], path[i+1]) for i in range(len(path) - 1)\<close>\<close>
  "edge_pairs (u # v # rest) = (u, v) # edge_pairs (v # rest)"
| "edge_pairs _ = []"

section \<open>The cost model (module \<^verbatim>\<open>src.metrics\<close>)\<close>

text \<open>
  The routers import \<^verbatim>\<open>calculate_path_attributes\<close> and
  \<^verbatim>\<open>calculate_weighted_cost\<close> from a module that is not part of the inspected
  sources. Both are parameters of the model: a record of two functions.
\<close>

record path_attrs =
  total_delay :: real
  reliability_cost :: real
  resource_cost :: real

record weights =
  w_delay :: real
  w_reliability :: real
  w_resource :: real

record cost_model =
  calculate_path_attributes :: "graph \<Rightarrow> node list \<Rightarrow> path_attrs"
  calculate_weighted_cost :: "path_attrs \<Rightarrow> weights \<Rightarrow> real"

definition path_cost :: "cost_model \<Rightarrow> graph \<Rightarrow> weights \<Rightarrow> node list \<Rightarrow> real" where
  "path_cost M g w p = calculate_weighted_cost M (calculate_path_attributes M g p) w"

section \<open>Path metrics of both routers\<close>

datatype message =
    Gecerli_bir_yol_bulunamadi
  | Bant_genisligi_kisiti_saglanmadi
  | Yol_bulunamadi
  | Bant_genisligi_yetersiz

record qos =
  q_path :: "node list"
  q_total_delay :: real
  q_total_reliability :: real
  q_reliability_cost :: "real option"
  q_resource_cost :: real
  q_total_cost :: real
  q_bottleneck_bw :: ext
  q_hop_count :: nat
  q_node_count :: "nat option"

text \<open>
  The result dictionary: \<^verbatim>\<open>{"valid": False, "error": ...}\<close> or the dictionary
  with \<^verbatim>\<open>"valid": True\<close> and the measurements.
\<close>

datatype path_metrics = Invalid message | Valid qos

fun valid :: "path_metrics \<Rightarrow> bool" where
  "valid (Invalid _) = False"
| "valid (Valid _) = True"

fun edge_reliability_product :: "graph \<Rightarrow> real \<Rightarrow> (node \<times> node) list \<Rightarrow> py_error + real" where
  "edge_reliability_product g acc [] = Inr acc"
| "edge_reliability_product g acc ((u, v) # ps) =
     (case edge_lookup g u v of
        Inl e \<Rightarrow> Inl e
      | Inr a \<Rightarrow> edge_reliability_product g (acc * get_or (reliability a) 1) ps)"

fun node_reliability_product :: "graph \<Rightarrow> real \<Rightarrow> node list \<Rightarrow> py_error + real" where
  "node_reliability_product g acc [] = Inr acc"
| "node_reliability_product g acc (n # ns) =
     (case node_lookup g n of
        Inl e \<Rightarrow> Inl e
      | Inr a \<Rightarrow> node_reliability_product g (acc * get_or (node_reliability a) 1) ns)"

definition total_reliability_of :: "graph \<Rightarrow> node list \<Rightarrow> py_error + real" where
  "total_reliability_of g p =
     (case edge_reliability_product g 1 (edge_pairs p) of
        Inl e \<Rightarrow> Inl e
      | Inr r \<Rightarrow> node_reliability_product g r p)"

fun bandwidth_values :: "graph \<Rightarrow> ext \<Rightarrow> (node \<times> node) list \<Rightarrow> py_error + ext list" where
  \<comment> \<open>the values \<^verbatim>\<open>graph.edges[u, v].get("bandwidth", dflt)\<close> along the path\<close>
  "bandwidth_values g dflt [] = Inr []"
| "bandwidth_values g dflt ((u, v) # ps) =
     (case edge_lookup g u v of
        Inl e \<Rightarrow> Inl e
      | Inr a \<Rightarrow>
          (case bandwidth_values g dflt ps of
             Inl e \<Rightarrow> Inl e
           | Inr bs \<Rightarrow> Inr (get_or (map_option Fin (bandwidth a)) dflt # bs)))"

definition py_min :: "ext list \<Rightarrow> ext" where
  \<comment> \<open>the builtin \<^verbatim>\<open>min\<close> over a non-empty sequence\<close>
  "py_min xs = foldl (\<lambda>m x. if x < m then x else m) (hd xs) (tl xs)"

definition ql_get_path_metrics ::
  "cost_model \<Rightarrow> graph \<Rightarrow> weights \<Rightarrow> node list option \<Rightarrow> real \<Rightarrow> py_error + path_metrics" where
  "ql_get_path_metrics M g w path demand_bw =
     (case path of
        None \<Rightarrow> Inr (Invalid Gecerli_bir_yol_bulunamadi)
      | Some p \<Rightarrow>
          if p = [] \<or> length p < 2 then Inr (Invalid Gecerli_bir_yol_bulunamadi)
          else
            let attrs = calculate_path_attributes M g p in
            (case total_reliability_of g p of
               Inl e \<Rightarrow> Inl e
             | Inr total_rel \<Rightarrow>
                 (case bandwidth_values g PInf (edge_pairs p) of
                    Inl e \<Rightarrow> Inl e
                  | Inr bws \<Rightarrow>
                      let min_bw = py_min bws in
                      if min_bw < Fin demand_bw
                      then Inr (Invalid Bant_genisligi_kisiti_saglanmadi)
                      else Inr (Valid \<lparr>
                        q_path = p,
                        q_total_delay = total_delay attrs,
                        q_total_reliability = total_rel,
                        q_reliability_cost = Some (reliability_cost attrs),
                        q_resource_cost = resource_cost attrs,
                        q_total_cost = calculate_weighted_cost M attrs w,
                        q_bottleneck_bw = min_bw,
                        q_hop_count = length p - 1,
                        q_node_count = Some (length p) \<rparr>))))"

definition aco_get_path_metrics ::
  "cost_model \<Rightarrow> graph \<Rightarrow> weights \<Rightarrow> node list option \<Rightarrow> real \<Rightarrow> py_error + path_metrics" where
  "aco_get_path_metrics M g w path demand_bw =
     (case path of
        None \<Rightarrow> Inr (Invalid Yol_bulunamadi)
      | Some p \<Rightarrow>
          if p = [] \<or> length p < 2 then Inr (Invalid Yol_bulunamadi)
          else
            (case bandwidth_values g (Fin 0) (edge_pairs p) of
               Inl e \<Rightarrow> Inl e
             | Inr bws \<Rightarrow>
                 let min_bw = foldl (\<lambda>m bw. if bw < m then bw else m) PInf bws in
                 if min_bw < Fin demand_bw
                 then Inr (Invalid Bant_genisligi_yetersiz)
                 else
                   let attrs = calculate_path_attributes M g p;
                       cost = calculate_weighted_cost M attrs w
                   in (case total_reliability_of g p of
                         Inl e \<Rightarrow> Inl e
                       | Inr total_rel \<Rightarrow>
                           Inr (Valid \<lparr>
                             q_path = p,
                             q_total_delay = total_delay attrs,
                             q_total_reliability = total_rel,
                             q_reliability_cost = None,
                             q_resource_cost = resource_cost attrs,
                             q_total_cost = cost,
                             q_bottleneck_bw = min_bw,
                             q_hop_count = length p - 1,
                             q_node_count = None \<rparr>))))"

subsection \<open>What the claims call a path and its bottleneck\<close>

definition is_walk :: "graph \<Rightarrow> node list \<Rightarrow> bool" where
  \<comment> \<open>every node is a node of the graph, every consecutive pair an edge\<close>
  "is_walk g p \<longleftrightarrow>
     (\<forall>n \<in> set p. n \<in> set (node_ids g)) \<and>
     (\<forall>(u, v) \<in> set (edge_pairs p). v \<in> set (nbrs g u))"

definition edge_bw :: "graph \<Rightarrow> ext \<Rightarrow> node \<times> node \<Rightarrow> ext" where
  \<comment> \<open>the bandwidth of an edge, \<open>dflt\<close> where the edge carries none\<close>
  "edge_bw g dflt e =
     (case map_of (g_adj g (fst e)) (snd e) of
        None \<Rightarrow> dflt
      | Some a \<Rightarrow> get_or (map_option Fin (bandwidth a)) dflt)"

definition bottleneck :: "graph \<Rightarrow> ext \<Rightarrow> node list \<Rightarrow> ext" where
  \<comment> \<open>minimum edge bandwidth over the consecutive pairs; \<open>PInf\<close> when there is none\<close>
  "bottleneck g dflt p = Min (insert PInf (edge_bw g dflt ` set (edge_pairs p)))"


section \<open>Randomness\<close>

text \<open>
  The calls into Python's \<^verbatim>\<open>random\<close> module are answered by an oracle that is a
  parameter of the model, so every theorem holds for every outcome of the draws. A draw
  is addressed by its position in the loops that make it (for the Q-learning router the
  episode and the step within it; for the ant colony the iteration, the ant and the
  step). \<^verbatim>\<open>random.choice(xs)\<close> and \<^verbatim>\<open>random.choices(xs, weights)\<close> return
  the element of \<open>xs\<close> at the index the oracle gives, reduced modulo the length.
\<close>

record ql_rng =
  random_random :: "nat \<Rightarrow> nat \<Rightarrow> real"
  random_choice :: "nat \<Rightarrow> nat \<Rightarrow> nat"

record aco_rng =
  ant_choice :: "nat \<Rightarrow> nat \<Rightarrow> nat \<Rightarrow> nat"
  ant_choices :: "nat \<Rightarrow> nat \<Rightarrow> nat \<Rightarrow> real list \<Rightarrow> nat"

section \<open>The Q-learning router\<close>

record ql_router =
  ql_graph :: graph
  ql_weights :: weights
  alpha :: real
  gamma :: real
  epsilon :: real
  min_epsilon :: real
  epsilon_decay :: real
  episodes :: nat
  max_steps :: nat
  step_penalty :: real
  progress_bonus :: real
  Q :: "node \<rightharpoonup> (node \<times> real) list"
  best_path :: "node list option"
  best_cost :: ext

definition init_Q :: "graph \<Rightarrow> node \<rightharpoonup> (node \<times> real) list" where
  \<comment> \<open>\<^verbatim>\<open>{node: {nbr: 0.0 for nbr in graph.neighbors(node)} for node in graph.nodes}\<close>\<close>
  "init_Q g = map_of (map (\<lambda>n. (n, map (\<lambda>nbr. (nbr, 0)) (nbrs g n))) (node_ids g))"

definition QLearningRouter ::
  "graph \<Rightarrow> weights \<Rightarrow> real \<Rightarrow> real \<Rightarrow> real \<Rightarrow> real \<Rightarrow> real \<Rightarrow> nat \<Rightarrow> nat \<Rightarrow> real \<Rightarrow> real
     \<Rightarrow> ql_router" where
  "QLearningRouter g w alpha0 gamma0 initial_epsilon min_epsilon0 epsilon_decay0 episodes0
       max_steps0 step_penalty0 progress_bonus0 =
     \<lparr> ql_graph = g, ql_weights = w, alpha = alpha0, gamma = gamma0,
       epsilon = initial_epsilon, min_epsilon = min_epsilon0,
       epsilon_decay = epsilon_decay0, episodes = episodes0, max_steps = max_steps0,
       step_penalty = step_penalty0, progress_bonus = progress_bonus0,
       Q = init_Q g, best_path = None, best_cost = PInf \<rparr>"

definition QLearningRouter_default :: "graph \<Rightarrow> weights \<Rightarrow> ql_router" where
  \<comment> \<open>the constructor with its default arguments\<close>
  "QLearningRouter_default g w =
     QLearningRouter g w (15/100) (92/100) 1 (1/100) (99/100) 4000 100 (-2) (1/2)"

text \<open>The variables local to one training episode.\<close>

record episode =
  state :: node
  visited :: "node set"
  path :: "node list"
  steps :: nat
  min_bw_on_path :: ext

definition py_max_by_value :: "(node \<times> real) list \<Rightarrow> node \<times> real" where
  \<comment> \<open>\<^verbatim>\<open>max(actions, key=lambda a: Q[state][a])\<close>: the first action of maximal value\<close>
  "py_max_by_value acts = foldl (\<lambda>b x. if snd b < snd x then x else b) (hd acts) (tl acts)"

definition max_default :: "real list \<Rightarrow> real \<Rightarrow> real" where
  \<comment> \<open>\<^verbatim>\<open>max(values, default=d)\<close>\<close>
  "max_default xs d =
     (if xs = [] then d else foldl (\<lambda>m x. if m < x then x else m) (hd xs) (tl xs))"

definition q_value :: "(node \<rightharpoonup> (node \<times> real) list) \<Rightarrow> node \<Rightarrow> node \<Rightarrow> real option" where
  \<comment> \<open>\<^verbatim>\<open>Q[s][a]\<close>, \<open>None\<close> where a key is missing\<close>
  "q_value Qt s a = (case Qt s of None \<Rightarrow> None | Some row \<Rightarrow> map_of row a)"

definition terminal_reward :: "cost_model \<Rightarrow> ql_router \<Rightarrow> real \<Rightarrow> node list \<Rightarrow> ext \<Rightarrow> real" where
  \<comment> \<open>the reward on reaching \<open>dst\<close>\<close>
  "terminal_reward M r demand_bw p min_bw =
     (let cost = max (path_cost M (ql_graph r) (ql_weights r) p) (1 / 1000000)
      in if Fin demand_bw \<le> min_bw then 2000 / cost else - 1)"

definition record_best :: "cost_model \<Rightarrow> real \<Rightarrow> node list \<Rightarrow> ext \<Rightarrow> ql_router \<Rightarrow> ql_router" where
  \<comment> \<open>the update of the retained path on reaching \<open>dst\<close>\<close>
  "record_best M demand_bw p min_bw r =
     (let cost = max (path_cost M (ql_graph r) (ql_weights r) p) (1 / 1000000)
      in if Fin demand_bw \<le> min_bw \<and> Fin cost < best_cost r
         then r\<lparr>best_cost := Fin cost, best_path := Some p\<rparr>
         else r)"

definition select_action ::
  "ql_rng \<Rightarrow> nat \<Rightarrow> episode \<Rightarrow> ql_router \<Rightarrow> (node \<times> real) list \<Rightarrow> node \<times> real" where
  \<comment> \<open>epsilon-greedy choice among the actions, each paired with its value \<^verbatim>\<open>Q[state][a]\<close>\<close>
  "select_action rng ep e r actions =
     (if random_random rng ep (steps e) < epsilon r
      then actions ! (random_choice rng ep (steps e) mod length actions)
      else py_max_by_value actions)"

definition step_reward ::
  "cost_model \<Rightarrow> ql_router \<Rightarrow> node \<Rightarrow> real \<Rightarrow> node \<Rightarrow> node list \<Rightarrow> ext \<Rightarrow> real" where
  "step_reward M r dst demand_bw next_state p min_bw =
     (if next_state = dst then terminal_reward M r demand_bw p min_bw
      else step_penalty r + progress_bonus r)"

definition step_best ::
  "cost_model \<Rightarrow> node \<Rightarrow> real \<Rightarrow> node \<Rightarrow> node list \<Rightarrow> ext \<Rightarrow> ql_router \<Rightarrow> ql_router" where
  "step_best M dst demand_bw next_state p min_bw r =
     (if next_state = dst then record_best M demand_bw p min_bw r else r)"

definition set_q_value :: "node \<Rightarrow> real \<Rightarrow> (node \<times> real) list \<Rightarrow> (node \<times> real) list" where
  \<comment> \<open>the row \<^verbatim>\<open>Q[state]\<close> after \<^verbatim>\<open>Q[state][action] = v\<close>\<close>
  "set_q_value action v row = map (\<lambda>(k, x). if k = action then (k, v) else (k, x)) row"

text \<open>
  The body of the \<^verbatim>\<open>while\<close> loop of \<^verbatim>\<open>train\<close> from the bandwidth
  bookkeeping on, for the action taken, its value \<open>q_sa\<close> and the attributes of its
  edge.
\<close>

definition ql_advance ::
  "cost_model \<Rightarrow> node \<Rightarrow> real \<Rightarrow> episode \<Rightarrow> ql_router \<Rightarrow> (node \<times> real) list \<Rightarrow> node \<Rightarrow> real
     \<Rightarrow> edge_attrs \<Rightarrow> py_error + (episode \<times> ql_router) option" where
  "ql_advance M dst demand_bw e r row action q_sa attrs =
     (let bw = get_or (bandwidth attrs) 0;
          min_bw = min (min_bw_on_path e) (Fin bw);
          next_state = action;
          path' = path e @ [next_state];
          reward = step_reward M r dst demand_bw next_state path' min_bw;
          r1 = step_best M dst demand_bw next_state path' min_bw r
      in (case Q r1 next_state of
            None \<Rightarrow> Inl KeyError
          | Some next_row \<Rightarrow>
              let future_q = max_default (map snd next_row) 0;
                  new_q = q_sa + alpha r1 * (reward + gamma r1 * future_q - q_sa)
              in Inr (Some
                   (e\<lparr>state := next_state,
                      visited := insert next_state (visited e),
                      path := path',
                      min_bw_on_path := min_bw\<rparr>,
                    r1\<lparr>Q := (Q r1)(state e \<mapsto> set_q_value action new_q row)\<rparr>))))"

text \<open>
  One pass through the body of the \<^verbatim>\<open>while\<close> loop, after \<^verbatim>\<open>steps += 1\<close>.
  \<open>Inr None\<close> is the \<^verbatim>\<open>break\<close> on an empty action list.
\<close>

definition ql_step ::
  "cost_model \<Rightarrow> ql_rng \<Rightarrow> nat \<Rightarrow> node \<Rightarrow> real \<Rightarrow> episode \<Rightarrow> ql_router
     \<Rightarrow> py_error + (episode \<times> ql_router) option" where
  "ql_step M rng ep dst demand_bw e r =
     (case Q r (state e) of
        None \<Rightarrow> Inl KeyError
      | Some row \<Rightarrow>
          let actions = filter (\<lambda>(a, _). a \<notin> visited e) row in
          if actions = [] then Inr None
          else
            let act = select_action rng ep e r actions
            in (case edge_lookup (ql_graph r) (state e) (fst act) of
                  Inl err \<Rightarrow> Inl err
                | Inr attrs \<Rightarrow> ql_advance M dst demand_bw e r row (fst act) (snd act) attrs))"

text \<open>
  The \<^verbatim>\<open>while state != dst and steps < max_steps\<close> loop; the first argument is
  the number of steps still allowed, \<open>max_steps - steps\<close>.
\<close>

fun ql_episode_loop ::
  "cost_model \<Rightarrow> ql_rng \<Rightarrow> nat \<Rightarrow> node \<Rightarrow> real \<Rightarrow> nat \<Rightarrow> episode \<Rightarrow> ql_router
     \<Rightarrow> py_error + ql_router" where
  "ql_episode_loop M rng ep dst demand_bw 0 e r = Inr r"
| "ql_episode_loop M rng ep dst demand_bw (Suc n) e r =
     (if state e = dst then Inr r
      else
        (case ql_step M rng ep dst demand_bw (e\<lparr>steps := steps e + 1\<rparr>) r of
           Inl err \<Rightarrow> Inl err
         | Inr None \<Rightarrow> Inr r
         | Inr (Some (e', r')) \<Rightarrow> ql_episode_loop M rng ep dst demand_bw n e' r'))"

definition decay_epsilon :: "ql_router \<Rightarrow> ql_router" where
  "decay_epsilon r =
     (if min_epsilon r < epsilon r then r\<lparr>epsilon := epsilon r * epsilon_decay r\<rparr> else r)"

definition ql_episode ::
  "cost_model \<Rightarrow> ql_rng \<Rightarrow> nat \<Rightarrow> node \<Rightarrow> node \<Rightarrow> real \<Rightarrow> ql_router \<Rightarrow> py_error + ql_router" where
  "ql_episode M rng ep src dst demand_bw r =
     (case ql_episode_loop M rng ep dst demand_bw (max_steps r)
             \<lparr>state = src, visited = {src}, path = [src], steps = 0, min_bw_on_path = PInf\<rparr> r of
        Inl err \<Rightarrow> Inl err
      | Inr r' \<Rightarrow> Inr (decay_epsilon r'))"

text \<open>
  The \<^verbatim>\<open>for _ in range(self.episodes)\<close> loop: episodes still to run, and the index
  of the next one.
\<close>

fun ql_episodes ::
  "cost_model \<Rightarrow> ql_rng \<Rightarrow> node \<Rightarrow> node \<Rightarrow> real \<Rightarrow> nat \<Rightarrow> nat \<Rightarrow> ql_router
     \<Rightarrow> py_error + ql_router" where
  "ql_episodes M rng src dst demand_bw 0 ep r = Inr r"
| "ql_episodes M rng src dst demand_bw (Suc n) ep r =
     (case ql_episode M rng ep src dst demand_bw r of
        Inl err \<Rightarrow> Inl err
      | Inr r' \<Rightarrow> ql_episodes M rng src dst demand_bw n (Suc ep) r')"

definition ql_train ::
  "cost_model \<Rightarrow> ql_rng \<Rightarrow> ql_router \<Rightarrow> node \<Rightarrow> node \<Rightarrow> real \<Rightarrow> py_error + ql_router" where
  "ql_train M rng r src dst demand_bw = ql_episodes M rng src dst demand_bw (episodes r) 0 r"

definition ql_get_best_path :: "ql_router \<Rightarrow> node list option" where
  "ql_get_best_path r = best_path r"

text \<open>
  \<^verbatim>\<open>run_multiple\<close>: each run gets its own oracle. The loop carries
  \<^verbatim>\<open>global_best_cost\<close> and \<^verbatim>\<open>global_best_path\<close>.
\<close>

definition reset_learning :: "ql_router \<Rightarrow> ql_router" where
  "reset_learning r =
     r\<lparr>Q := init_Q (ql_graph r), best_path := None, best_cost := PInf, epsilon := 1\<rparr>"

definition keep_global_best ::
  "cost_model \<Rightarrow> ql_router \<Rightarrow> ext \<times> node list option \<Rightarrow> ext \<times> node list option" where
  "keep_global_best M r gb =
     (case best_path r of
        None \<Rightarrow> gb
      | Some p \<Rightarrow>
          let cost = path_cost M (ql_graph r) (ql_weights r) p
          in if Fin cost < fst gb then (Fin cost, Some p) else gb)"

fun ql_runs ::
  "cost_model \<Rightarrow> (nat \<Rightarrow> ql_rng) \<Rightarrow> node \<Rightarrow> node \<Rightarrow> real \<Rightarrow> nat \<Rightarrow> nat
     \<Rightarrow> ext \<times> node list option \<Rightarrow> ql_router
     \<Rightarrow> py_error + ((ext \<times> node list option) \<times> ql_router)" where
  "ql_runs M rngs src dst demand_bw 0 i gb r = Inr (gb, r)"
| "ql_runs M rngs src dst demand_bw (Suc n) i gb r =
     (case ql_train M (rngs i) (reset_learning r) src dst demand_bw of
        Inl err \<Rightarrow> Inl err
      | Inr r' \<Rightarrow> ql_runs M rngs src dst demand_bw n (Suc i) (keep_global_best M r' gb) r')"

definition run_multiple ::
  "cost_model \<Rightarrow> (nat \<Rightarrow> ql_rng) \<Rightarrow> ql_router \<Rightarrow> node \<Rightarrow> node \<Rightarrow> real \<Rightarrow> nat
     \<Rightarrow> py_error + (node list option \<times> ql_router)" where
  "run_multiple M rngs r src dst demand_bw runs =
     (case ql_runs M rngs src dst demand_bw runs 0 (PInf, None) r of
        Inl err \<Rightarrow> Inl err
      | Inr ((global_best_cost, global_best_path), r') \<Rightarrow>
          Inr (global_best_path,
               r'\<lparr>best_path := global_best_path, best_cost := global_best_cost\<rparr>))"


section \<open>The ant colony router\<close>

record aco_router =
  aco_graph :: graph
  aco_weights :: weights
  ant_count :: nat
  iterations :: nat
  aco_alpha :: real
  beta :: real
  evaporation :: real
  aco_q :: real
  nodes :: "node list"
  aco_best_path :: "node list option"
  aco_best_cost :: ext
  pheromones :: "node \<times> node \<rightharpoonup> real"

definition graph_edges :: "graph \<Rightarrow> (node \<times> node) list" where
  \<comment> \<open>\<^verbatim>\<open>graph.edges()\<close>. networkx reports an undirected edge once; here it appears
      from each of its ends, which gives the same table below, where both directions
      of every reported edge are written.\<close>
  "graph_edges g = concat (map (\<lambda>u. map (\<lambda>v. (u, v)) (nbrs g u)) (node_ids g))"

definition initialize_pheromones :: "aco_router \<Rightarrow> aco_router" where
  "initialize_pheromones r =
     r\<lparr>pheromones :=
         foldl (\<lambda>ph (u, v). ph((u, v) \<mapsto> 1, (v, u) \<mapsto> 1)) (pheromones r)
           (graph_edges (aco_graph r))\<rparr>"

definition ACORouter ::
  "graph \<Rightarrow> weights \<Rightarrow> nat \<Rightarrow> nat \<Rightarrow> real \<Rightarrow> real \<Rightarrow> real \<Rightarrow> real \<Rightarrow> aco_router" where
  "ACORouter g w ant_count0 iterations0 alpha0 beta0 evaporation0 q0 =
     initialize_pheromones
       \<lparr> aco_graph = g, aco_weights = w, ant_count = ant_count0, iterations = iterations0,
         aco_alpha = alpha0, beta = beta0, evaporation = evaporation0, aco_q = q0,
         nodes = node_ids g, aco_best_path = None, aco_best_cost = PInf,
         pheromones = Map.empty \<rparr>"

definition ACORouter_default :: "graph \<Rightarrow> weights \<Rightarrow> aco_router" where
  "ACORouter_default g w = ACORouter g w 20 30 1 2 (1/2) 100"

text \<open>The variables local to one ant's walk.\<close>

record ant =
  current :: node
  ant_path :: "node list"
  ant_visited :: "node set"

fun valid_neighbors ::
  "graph \<Rightarrow> node \<Rightarrow> node set \<Rightarrow> real \<Rightarrow> node list \<Rightarrow> py_error + node list" where
  \<comment> \<open>the unvisited neighbours whose edge has bandwidth (0 when absent) at least the demand\<close>
  "valid_neighbors g cur vis demand_bw [] = Inr []"
| "valid_neighbors g cur vis demand_bw (n # ns) =
     (if n \<notin> vis then
        (case edge_lookup g cur n of
           Inl err \<Rightarrow> Inl err
         | Inr a \<Rightarrow>
             (case valid_neighbors g cur vis demand_bw ns of
                Inl err \<Rightarrow> Inl err
              | Inr rest \<Rightarrow>
                  Inr (if demand_bw \<le> get_or (bandwidth a) 0 then n # rest else rest)))
      else valid_neighbors g cur vis demand_bw ns)"

text \<open>
  The weights of the roulette wheel. The float power \<^verbatim>\<open>**\<close> is the real power
  \<open>powr\<close>, which agrees with it on a positive base.
\<close>

fun probabilities :: "aco_router \<Rightarrow> node \<Rightarrow> node list \<Rightarrow> py_error + real list" where
  "probabilities r cur [] = Inr []"
| "probabilities r cur (n # ns) =
     (let tau = get_or (pheromones r (cur, n)) 1 in
      case edge_lookup (aco_graph r) cur n of
        Inl err \<Rightarrow> Inl err
      | Inr a \<Rightarrow>
          let edge_delay = get_or (delay a) 1 in
          if edge_delay + 1 / 10 = 0 then Inl ZeroDivisionError
          else
            let eta = 1 / (edge_delay + 1 / 10);
                prob = (tau powr aco_alpha r) * (eta powr beta r)
            in (case probabilities r cur ns of
                  Inl err \<Rightarrow> Inl err
                | Inr rest \<Rightarrow> Inr (prob # rest)))"

text \<open>
  \<^verbatim>\<open>_construct_path\<close>: the \<^verbatim>\<open>for _ in range(len(self.nodes) * 2)\<close> loop, with
  the number of rounds still to run and the index of the round. \<open>Inr None\<close> is the
  ant that failed.
\<close>

fun construct_loop ::
  "aco_rng \<Rightarrow> nat \<Rightarrow> nat \<Rightarrow> aco_router \<Rightarrow> node \<Rightarrow> real \<Rightarrow> nat \<Rightarrow> nat \<Rightarrow> ant
     \<Rightarrow> py_error + node list option" where
  "construct_loop rng it k r dst demand_bw 0 j a = Inr None"
| "construct_loop rng it k r dst demand_bw (Suc n) j a =
     (if current a = dst then Inr (Some (ant_path a))
      else
        (case neighbors (aco_graph r) (current a) of
           Inl err \<Rightarrow> Inl err
         | Inr ns \<Rightarrow>
             (case valid_neighbors (aco_graph r) (current a) (ant_visited a) demand_bw ns of
                Inl err \<Rightarrow> Inl err
              | Inr vs \<Rightarrow>
                  if vs = [] then Inr None
                  else
                    (case probabilities r (current a) vs of
                       Inl err \<Rightarrow> Inl err
                     | Inr probs \<Rightarrow>
                         let denominator = foldl (+) 0 probs;
                             next_node =
                               (if denominator = 0
                                then vs ! (ant_choice rng it k j mod length vs)
                                else vs ! (ant_choices rng it k j
                                             (map (\<lambda>p. p / denominator) probs) mod length vs))
                         in construct_loop rng it k r dst demand_bw n (Suc j)
                              \<lparr>current = next_node,
                               ant_path = ant_path a @ [next_node],
                               ant_visited = insert next_node (ant_visited a)\<rparr>))))"

definition construct_path ::
  "aco_rng \<Rightarrow> nat \<Rightarrow> nat \<Rightarrow> aco_router \<Rightarrow> node \<Rightarrow> node \<Rightarrow> real \<Rightarrow> py_error + node list option" where
  "construct_path rng it k r src dst demand_bw =
     construct_loop rng it k r dst demand_bw (length (nodes r) * 2) 0
       \<lparr>current = src, ant_path = [src], ant_visited = {src}\<rparr>"

definition calculate_path_cost :: "cost_model \<Rightarrow> aco_router \<Rightarrow> node list \<Rightarrow> real" where
  "calculate_path_cost M r p = path_cost M (aco_graph r) (aco_weights r) p"

definition evaporate :: "real \<Rightarrow> (node \<times> node \<rightharpoonup> real) \<Rightarrow> (node \<times> node \<rightharpoonup> real)" where
  \<comment> \<open>every entry is multiplied by \<open>1 - evaporation\<close> and floored at 0.01\<close>
  "evaporate ev ph =
     (\<lambda>e. map_option (\<lambda>x. let y = x * (1 - ev) in if y < 1 / 100 then 1 / 100 else y) (ph e))"

definition add_deposit :: "real \<Rightarrow> node \<times> node \<Rightarrow> (node \<times> node \<rightharpoonup> real) \<Rightarrow> (node \<times> node \<rightharpoonup> real)" where
  \<comment> \<open>\<^verbatim>\<open>if e in pheromones: pheromones[e] += deposit\<close>\<close>
  "add_deposit dep e ph = (case ph e of None \<Rightarrow> ph | Some x \<Rightarrow> ph(e \<mapsto> x + dep))"

fun deposit_path ::
  "real \<Rightarrow> (node \<times> node) list \<Rightarrow> (node \<times> node \<rightharpoonup> real) \<Rightarrow> (node \<times> node \<rightharpoonup> real)" where
  "deposit_path dep [] ph = ph"
| "deposit_path dep ((u, v) # ps) ph =
     deposit_path dep ps (add_deposit dep (v, u) (add_deposit dep (u, v) ph))"

fun deposit_all ::
  "real \<Rightarrow> (node list \<times> real) list \<Rightarrow> (node \<times> node \<rightharpoonup> real)
     \<Rightarrow> py_error + (node \<times> node \<rightharpoonup> real)" where
  "deposit_all qc [] ph = Inr ph"
| "deposit_all qc ((p, cost) # rest) ph =
     (if cost + 1 / 10000 = 0 then Inl ZeroDivisionError
      else deposit_all qc rest (deposit_path (qc / (cost + 1 / 10000)) (edge_pairs p) ph))"

definition update_pheromones ::
  "aco_router \<Rightarrow> (node list \<times> real) list \<Rightarrow> py_error + aco_router" where
  "update_pheromones r all_paths =
     (case deposit_all (aco_q r) all_paths (evaporate (evaporation r) (pheromones r)) of
        Inl err \<Rightarrow> Inl err
      | Inr ph \<Rightarrow> Inr (r\<lparr>pheromones := ph\<rparr>))"

text \<open>
  The loop over the ants of one iteration: ants still to send, the index of the next
  one, the list \<^verbatim>\<open>all_paths\<close> and the router.
\<close>

fun ants_loop ::
  "cost_model \<Rightarrow> aco_rng \<Rightarrow> nat \<Rightarrow> node \<Rightarrow> node \<Rightarrow> real \<Rightarrow> nat \<Rightarrow> nat
     \<Rightarrow> (node list \<times> real) list \<Rightarrow> aco_router
     \<Rightarrow> py_error + ((node list \<times> real) list \<times> aco_router)" where
  "ants_loop M rng it src dst demand_bw 0 k all_paths r = Inr (all_paths, r)"
| "ants_loop M rng it src dst demand_bw (Suc n) k all_paths r =
     (case construct_path rng it k r src dst demand_bw of
        Inl err \<Rightarrow> Inl err
      | Inr None \<Rightarrow> ants_loop M rng it src dst demand_bw n (Suc k) all_paths r
      | Inr (Some p) \<Rightarrow>
          if p = [] then ants_loop M rng it src dst demand_bw n (Suc k) all_paths r
          else
            let cost = calculate_path_cost M r p;
                r' = (if Fin cost < aco_best_cost r
                      then r\<lparr>aco_best_cost := Fin cost, aco_best_path := Some p\<rparr>
                      else r)
            in ants_loop M rng it src dst demand_bw n (Suc k) (all_paths @ [(p, cost)]) r')"

fun iterations_loop ::
  "cost_model \<Rightarrow> aco_rng \<Rightarrow> node \<Rightarrow> node \<Rightarrow> real \<Rightarrow> nat \<Rightarrow> nat \<Rightarrow> aco_router
     \<Rightarrow> py_error + aco_router" where
  "iterations_loop M rng src dst demand_bw 0 it r = Inr r"
| "iterations_loop M rng src dst demand_bw (Suc n) it r =
     (case ants_loop M rng it src dst demand_bw (ant_count r) 0 [] r of
        Inl err \<Rightarrow> Inl err
      | Inr (all_paths, r') \<Rightarrow>
          (case update_pheromones r' all_paths of
             Inl err \<Rightarrow> Inl err
           | Inr r'' \<Rightarrow> iterations_loop M rng src dst demand_bw n (Suc it) r''))"

definition aco_train ::
  "cost_model \<Rightarrow> aco_rng \<Rightarrow> aco_router \<Rightarrow> node \<Rightarrow> node \<Rightarrow> real \<Rightarrow> py_error + aco_router" where
  "aco_train M rng r src dst demand_bw =
     iterations_loop M rng src dst demand_bw (iterations r) 0
       (r\<lparr>aco_best_path := None, aco_best_cost := PInf\<rparr>)"

definition aco_get_best_path :: "aco_router \<Rightarrow> node list option" where
  "aco_get_best_path r = aco_best_path r"


definition consecutive_edges :: "graph \<Rightarrow> node list \<Rightarrow> bool" where
  \<comment> \<open>every consecutive pair of the path is an edge of the graph\<close>
  "consecutive_edges g p \<longleftrightarrow> (\<forall>(u, v) \<in> set (edge_pairs p). v \<in> set (nbrs g u))"

definition feasible_route :: "graph \<Rightarrow> node \<Rightarrow> node \<Rightarrow> real \<Rightarrow> node list \<Rightarrow> bool" where
  \<comment> \<open>a path from \<open>src\<close> to \<open>dst\<close> without repeated node, along edges of the graph,
      whose bottleneck (an edge without bandwidth counting as 0) meets the demand\<close>
  "feasible_route g src dst demand_bw p \<longleftrightarrow>
     p \<noteq> [] \<and> hd p = src \<and> last p = dst \<and> distinct p \<and> consecutive_edges g p \<and>
     Fin demand_bw \<le> bottleneck g (Fin 0) p"

definition episode_inv :: "graph \<Rightarrow> node \<Rightarrow> episode \<Rightarrow> bool" where
  \<comment> \<open>what holds of the local variables of an episode at the head of its loop\<close>
  "episode_inv g src e \<longleftrightarrow>
     path e \<noteq> [] \<and> hd (path e) = src \<and> last (path e) = state e \<and> distinct (path e) \<and>
     set (path e) \<subseteq> visited e \<and> consecutive_edges g (path e) \<and>
     min_bw_on_path e = bottleneck g (Fin 0) (path e)"

definition improved ::
  "cost_model \<Rightarrow> node \<Rightarrow> node \<Rightarrow> real \<Rightarrow> ql_router \<Rightarrow> ql_router \<Rightarrow> bool" where
  \<comment> \<open>how training may change the retained path: not at all, or to a feasible route of
      strictly smaller recorded cost\<close>
  "improved M src dst demand_bw r r' \<longleftrightarrow>
     (best_path r' = best_path r \<and> best_cost r' = best_cost r) \<or>
     (\<exists>p. best_path r' = Some p \<and> feasible_route (ql_graph r) src dst demand_bw p \<and>
          best_cost r' = Fin (max (path_cost M (ql_graph r) (ql_weights r) p) (1 / 1000000)) \<and>
          best_cost r' < best_cost r)"

definition ql_frame :: "ql_router \<Rightarrow> ql_router \<Rightarrow> bool" where
  \<comment> \<open>the attributes of the router that training never writes\<close>
  "ql_frame r r' \<longleftrightarrow>
     ql_graph r' = ql_graph r \<and> ql_weights r' = ql_weights r \<and>
     max_steps r' = max_steps r \<and> episodes r' = episodes r"


definition aco_frame :: "aco_router \<Rightarrow> aco_router \<Rightarrow> bool" where
  \<comment> \<open>the attributes of the router that training never writes\<close>
  "aco_frame r r' \<longleftrightarrow>
     aco_graph r' = aco_graph r \<and> aco_weights r' = aco_weights r \<and>
     ant_count r' = ant_count r \<and> iterations r' = iterations r \<and>
     aco_alpha r' = aco_alpha r \<and> beta r' = beta r \<and> evaporation r' = evaporation r \<and>
     aco_q r' = aco_q r \<and> nodes r' = nodes r"


text \<open>
  Well-formedness. In a networkx graph every neighbour is a node; the table of a router
  built on such a graph has a row for every node, whose keys are neighbours of the node.
  Training on a well-formed router raises no \<^verbatim>\<open>KeyError\<close>.
\<close>

definition graph_closed :: "graph \<Rightarrow> bool" where
  "graph_closed g \<longleftrightarrow> (\<forall>u \<in> set (node_ids g). \<forall>v \<in> set (nbrs g u). v \<in> set (node_ids g))"

definition row_ok :: "graph \<Rightarrow> node \<Rightarrow> (node \<times> real) list option \<Rightarrow> bool" where
  "row_ok g u row_opt \<longleftrightarrow>
     (case row_opt of
        None \<Rightarrow> False
      | Some row \<Rightarrow> \<forall>v \<in> fst ` set row. v \<in> set (nbrs g u) \<and> v \<in> set (node_ids g))"

definition wf_router :: "ql_router \<Rightarrow> bool" where
  "wf_router r \<longleftrightarrow> (\<forall>u \<in> set (node_ids (ql_graph r)). row_ok (ql_graph r) u (Q r u))"




definition rows_are_dicts :: "ql_router \<Rightarrow> bool" where
  \<comment> \<open>every row of the table, an association list here, has each key once\<close>
  "rows_are_dicts r \<longleftrightarrow> (\<forall>s row. Q r s = Some row \<longrightarrow> distinct (map fst row))"

definition td_reward :: "cost_model \<Rightarrow> ql_router \<Rightarrow> node \<Rightarrow> real \<Rightarrow> episode \<Rightarrow> real" where
  \<comment> \<open>the reward of the step that led to the episode state \<open>e'\<close>, as the amended
      claim C7 states it\<close>
  "td_reward M r dst demand_bw e' =
     (if state e' = dst
      then (if Fin demand_bw \<le> min_bw_on_path e'
            then 2000 / max (path_cost M (ql_graph r) (ql_weights r) (path e')) (1 / 1000000)
            else - 1)
      else step_penalty r + progress_bonus r)"

definition max_q :: "(node \<times> real) list \<Rightarrow> real" where
  \<comment> \<open>the largest value of a row, 0 for the empty row\<close>
  "max_q row = (if row = [] then 0 else Max (snd ` set row))"

text \<open>
  The routers as the runs of \<^verbatim>\<open>run_multiple\<close> leave them, one per run, in order:
  the loop of \<open>ql_runs\<close> without its comparison of costs. It serves to state what
  \<^verbatim>\<open>run_multiple\<close> returns in terms of its constituent runs.
\<close>

fun ql_run_states ::
  "cost_model \<Rightarrow> (nat \<Rightarrow> ql_rng) \<Rightarrow> node \<Rightarrow> node \<Rightarrow> real \<Rightarrow> nat \<Rightarrow> nat \<Rightarrow> ql_router
     \<Rightarrow> py_error + ql_router list" where
  "ql_run_states M rngs src dst demand_bw 0 i r = Inr []"
| "ql_run_states M rngs src dst demand_bw (Suc n) i r =
     (case ql_train M (rngs i) (reset_learning r) src dst demand_bw of
        Inl err \<Rightarrow> Inl err
      | Inr r' \<Rightarrow>
          (case ql_run_states M rngs src dst demand_bw n (Suc i) r' of
             Inl err \<Rightarrow> Inl err
           | Inr rs \<Rightarrow> Inr (r' # rs)))"

definition run_result_ok ::
  "cost_model \<Rightarrow> node \<Rightarrow> node \<Rightarrow> real \<Rightarrow> ql_router \<Rightarrow> ql_router \<Rightarrow> bool" where
  \<comment> \<open>the router \<open>x\<close> left by a run from fresh state on the graph and weights of
      \<open>r\<close>: it retains nothing, or a feasible route at its recorded cost\<close>
  "run_result_ok M src dst demand_bw r x \<longleftrightarrow>
     ql_graph x = ql_graph r \<and> ql_weights x = ql_weights r \<and>
     (case best_path x of
        None \<Rightarrow> True
      | Some p \<Rightarrow>
          feasible_route (ql_graph r) src dst demand_bw p \<and>
          best_cost x = Fin (max (path_cost M (ql_graph r) (ql_weights r) p) (1 / 1000000)))"

section \<open>Example networks\<close>

text \<open>
  The four-node ring 0-1-2-3-0 of the specification's scenarios: every edge with delay
  1, reliability 0.9 and bandwidth 10, every node with reliability 1.
\<close>

definition ring_edge :: edge_attrs where
  "ring_edge = \<lparr>bandwidth = Some 10, delay = Some 1, reliability = Some (9/10)\<rparr>"

definition ring_node :: node_attrs where
  "ring_node = \<lparr>node_reliability = Some 1\<rparr>"

definition ring4 :: graph where
  "ring4 =
     \<lparr> g_nodes = [(0, ring_node), (1, ring_node), (2, ring_node), (3, ring_node)],
       g_adj = (\<lambda>u. if u = 0 then [(1, ring_edge), (3, ring_edge)]
                   else if u = 1 then [(0, ring_edge), (2, ring_edge)]
                   else if u = 2 then [(1, ring_edge), (3, ring_edge)]
                   else if u = 3 then [(2, ring_edge), (0, ring_edge)]
                   else []) \<rparr>"

text \<open>A single link 0-1 whose edge carries a delay but no bandwidth attribute.\<close>

definition bare_edge :: edge_attrs where
  "bare_edge = \<lparr>bandwidth = None, delay = Some 1, reliability = None\<rparr>"

definition link2 :: graph where
  "link2 =
     \<lparr> g_nodes = [(0, ring_node), (1, ring_node)],
       g_adj = (\<lambda>u. if u = 0 then [(1, bare_edge)]
                   else if u = 1 then [(0, bare_edge)]
                   else []) \<rparr>"

definition total_delay_of :: "graph \<Rightarrow> node list \<Rightarrow> real" where
  "total_delay_of g p =
     sum_list (map (\<lambda>(u, v). case map_of (g_adj g u) v of
                               None \<Rightarrow> 0
                             | Some a \<Rightarrow> get_or (delay a) 0) (edge_pairs p))"

definition example_cost_model :: cost_model where
  \<comment> \<open>Modelled from the spec: an instance of the absent module \<^verbatim>\<open>src.metrics\<close> for
      the examples. The total delay is the sum of the edge delays and the scalar cost
      the weighted sum of section 4.1; the reliability and resource costs, whose form
      the specification leaves open, are 0 here.\<close>
  "example_cost_model =
     \<lparr> calculate_path_attributes =
         (\<lambda>g p. \<lparr>total_delay = total_delay_of g p, reliability_cost = 0, resource_cost = 0\<rparr>),
       calculate_weighted_cost =
         (\<lambda>a w. w_delay w * total_delay a + w_reliability w * reliability_cost a
                  + w_resource w * resource_cost a) \<rparr>"

definition delay_only :: weights where
  "delay_only = \<lparr>w_delay = 1, w_reliability = 0, w_resource = 0\<rparr>"

definition tiny_delay :: weights where
  \<comment> \<open>weights under which the two-hop paths of the ring cost less than \<open>10\<^sup>-\<^sup>6\<close>\<close>
  "tiny_delay = \<lparr>w_delay = 1 / 4000000, w_reliability = 0, w_resource = 0\<rparr>"

text \<open>
  Routers on the ring with small budgets, and oracles whose draws are all 0: every
  random number is 0 and every choice is the first candidate.
\<close>

definition first_choice :: ql_rng where
  "first_choice = \<lparr>random_random = (\<lambda>_ _. 0), random_choice = (\<lambda>_ _. 0)\<rparr>"

definition small_router :: ql_router where
  \<comment> \<open>one episode of at most three steps, the other arguments at their defaults\<close>
  "small_router =
     QLearningRouter ring4 delay_only (15/100) (92/100) 1 (1/100) (99/100) 1 3 (-2) (1/2)"

definition tiny_router :: ql_router where
  "tiny_router =
     QLearningRouter ring4 tiny_delay (15/100) (92/100) 1 (1/100) (99/100) 1 3 (-2) (1/2)"

definition at_start :: episode where
  \<comment> \<open>an episode from node 0, in its first pass through the loop\<close>
  "at_start = \<lparr>state = 0, visited = {0}, path = [0], steps = 1, min_bw_on_path = PInf\<rparr>"

definition at_middle :: episode where
  \<comment> \<open>the same episode after the step from node 0 to node 1\<close>
  "at_middle = \<lparr>state = 1, visited = {0, 1}, path = [0, 1], steps = 2, min_bw_on_path = Fin 10\<rparr>"

definition half_router :: ql_router where
  \<comment> \<open>a router constructed with \<^verbatim>\<open>initial_epsilon=0.3\<close>\<close>
  "half_router =
     QLearningRouter ring4 delay_only (15/100) (92/100) (3/10) (1/100) (99/100) 1 3 (-2) (1/2)"

definition half_choice :: ql_rng where
  \<comment> \<open>every random number is 0.5, every choice the second candidate\<close>
  "half_choice = \<lparr>random_random = (\<lambda>_ _. 1/2), random_choice = (\<lambda>_ _. 1)\<rparr>"

definition first_ant :: aco_rng where
  "first_ant = \<lparr>ant_choice = (\<lambda>_ _ _. 0), ant_choices = (\<lambda>_ _ _ _. 0)\<rparr>"

definition small_colony :: aco_router where
  \<comment> \<open>one iteration of one ant, the other arguments at their defaults\<close>
  "small_colony = ACORouter ring4 delay_only 1 1 1 2 (1/2) 100"

section \<open>Properties of the path metrics\<close>

lemma bandwidth_values_walk:
  "\<forall>(u, v) \<in> set ps. v \<in> set (nbrs g u) \<Longrightarrow>
   bandwidth_values g dflt ps = Inr (map (edge_bw g dflt) ps)"
proof (induction ps)
  case Nil
  then show ?case by simp
next
  case (Cons e ps)
  obtain u v where e: "e = (u, v)" by (cases e)
  from Cons.prems e have "v \<in> set (nbrs g u)" by simp
  then obtain a where a: "map_of (g_adj g u) v = Some a"
    by (cases "map_of (g_adj g u) v") (auto simp: nbrs_def map_of_eq_None_iff)
  from Cons have "bandwidth_values g dflt ps = Inr (map (edge_bw g dflt) ps)" by simp
  with a e show ?case by (simp add: edge_lookup_def edge_bw_def)
qed

lemma foldl_min_ext:
  "foldl (\<lambda>m x. if x < m then x else m) (a::ext) xs = Min (insert a (set xs))"
proof -
  have "(\<lambda>m x. if x < m then x else m) = (\<lambda>m x. min x (m::ext))"
    by (auto simp: min_def fun_eq_iff)
  then have "foldl (\<lambda>m x. if x < m then x else m) a xs = fold min xs a"
    by (simp add: foldl_conv_fold)
  also have "\<dots> = Min (set (a # xs))"
    by (rule Min.set_eq_fold [symmetric])
  finally show ?thesis by simp
qed

lemma py_min_Min: "xs \<noteq> [] \<Longrightarrow> py_min xs = Min (set xs)"
  by (cases xs) (simp_all add: py_min_def foldl_min_ext)

lemma bottleneck_map:
  "Min (insert PInf (set (map (edge_bw g dflt) ps))) = Min (insert PInf (edge_bw g dflt ` set ps))"
  by simp

lemma PInf_top [simp]: "x \<le> PInf"
  by (cases x) simp_all

lemma Min_insert_PInf:
  "finite A \<Longrightarrow> A \<noteq> {} \<Longrightarrow> Min (insert PInf A) = Min A"
  by (simp add: min_def antisym)

lemma node_reliability_product_ok:
  "\<forall>n \<in> set ns. n \<in> set (node_ids g) \<Longrightarrow> \<exists>r. node_reliability_product g acc ns = Inr r"
proof (induction ns arbitrary: acc)
  case Nil
  then show ?case by simp
next
  case (Cons n ns)
  then have "n \<in> fst ` set (g_nodes g)" by (simp add: node_ids_def)
  then obtain a where "map_of (g_nodes g) n = Some a"
    by (cases "map_of (g_nodes g) n") (auto simp: map_of_eq_None_iff)
  with Cons show ?case by (simp add: node_lookup_def)
qed

lemma edge_reliability_product_ok:
  "\<forall>(u, v) \<in> set ps. v \<in> set (nbrs g u) \<Longrightarrow> \<exists>r. edge_reliability_product g acc ps = Inr r"
proof (induction ps arbitrary: acc)
  case Nil
  then show ?case by simp
next
  case (Cons e ps)
  obtain u v where e: "e = (u, v)" by (cases e)
  from Cons.prems e have "v \<in> set (nbrs g u)" by simp
  then obtain a where a: "map_of (g_adj g u) v = Some a"
    by (cases "map_of (g_adj g u) v") (auto simp: nbrs_def map_of_eq_None_iff)
  with Cons e show ?case by (simp add: edge_lookup_def)
qed

lemma total_reliability_of_ok:
  assumes "is_walk g p"
  shows "\<exists>r. total_reliability_of g p = Inr r"
proof -
  from assms obtain r where r: "edge_reliability_product g 1 (edge_pairs p) = Inr r"
    using edge_reliability_product_ok [of "edge_pairs p" g 1] by (auto simp: is_walk_def)
  from assms obtain r' where "node_reliability_product g r p = Inr r'"
    using node_reliability_product_ok [of p g r] by (auto simp: is_walk_def)
  with r show ?thesis by (simp add: total_reliability_of_def)
qed

lemma edge_pairs_nonempty: "2 \<le> length p \<Longrightarrow> edge_pairs p \<noteq> []"
  by (cases p rule: edge_pairs.cases) simp_all

lemma ql_metrics_verdict:
  assumes "is_walk g p" and "2 \<le> length p"
  shows "\<exists>m. ql_get_path_metrics M g w (Some p) demand_bw = Inr m \<and>
            (valid m \<longleftrightarrow> Fin demand_bw \<le> bottleneck g PInf p) \<and>
            (\<not> valid m \<longrightarrow> m = Invalid Bant_genisligi_kisiti_saglanmadi)"
proof -
  have pairs: "\<forall>(u, v) \<in> set (edge_pairs p). v \<in> set (nbrs g u)"
    using assms(1) by (simp add: is_walk_def)
  have ne: "edge_pairs p \<noteq> []" using assms(2) by (rule edge_pairs_nonempty)
  obtain r where r: "total_reliability_of g p = Inr r"
    using total_reliability_of_ok [OF assms(1)] by blast
  have bws: "bandwidth_values g PInf (edge_pairs p) = Inr (map (edge_bw g PInf) (edge_pairs p))"
    using pairs by (rule bandwidth_values_walk)
  have ql_min: "py_min (map (edge_bw g PInf) (edge_pairs p)) = bottleneck g PInf p"
    using ne by (simp add: py_min_Min bottleneck_def Min_insert_PInf)
  have len: "\<not> (p = [] \<or> length p < 2)" using assms(2) by auto
  show ?thesis
    using len by (auto simp: ql_get_path_metrics_def r bws ql_min Let_def)
qed

lemma aco_metrics_verdict:
  assumes "is_walk g p" and "2 \<le> length p"
  shows "\<exists>m. aco_get_path_metrics M g w (Some p) demand_bw = Inr m \<and>
            (valid m \<longleftrightarrow> Fin demand_bw \<le> bottleneck g (Fin 0) p) \<and>
            (\<not> valid m \<longrightarrow> m = Invalid Bant_genisligi_yetersiz)"
proof -
  have pairs: "\<forall>(u, v) \<in> set (edge_pairs p). v \<in> set (nbrs g u)"
    using assms(1) by (simp add: is_walk_def)
  obtain r where r: "total_reliability_of g p = Inr r"
    using total_reliability_of_ok [OF assms(1)] by blast
  have bws: "bandwidth_values g (Fin 0) (edge_pairs p) = Inr (map (edge_bw g (Fin 0)) (edge_pairs p))"
    using pairs by (rule bandwidth_values_walk)
  have aco_min: "foldl (\<lambda>m bw. if bw < m then bw else m) PInf (map (edge_bw g (Fin 0)) (edge_pairs p))
                   = bottleneck g (Fin 0) p"
    by (simp add: foldl_min_ext bottleneck_def)
  have len: "\<not> (p = [] \<or> length p < 2)" using assms(2) by auto
  show ?thesis
    using len by (auto simp: aco_get_path_metrics_def r bws aco_min Let_def)
qed

text \<open>
  Claim C2. For a path of at least two nodes (a walk of the graph), each router's
  \<^verbatim>\<open>get_path_metrics\<close> returns a result, and the result is valid exactly when the
  bottleneck, the minimum bandwidth over the consecutive pairs of the path read from the
  graph, is at least the demand; below the demand the result is the invalid record with
  the router's bandwidth message. The verdict depends on the path and the graph only. An
  edge without a bandwidth attribute counts as unbounded for the Q-learning router and
  as 0 for the ant colony router.
\<close>

theorem get_path_metrics_valid_iff_feasible:
  assumes "is_walk g p" and "2 \<le> length p"
  shows "(\<exists>m. ql_get_path_metrics M g w (Some p) demand_bw = Inr m \<and>
            (valid m \<longleftrightarrow> Fin demand_bw \<le> bottleneck g PInf p) \<and>
            (\<not> valid m \<longrightarrow> m = Invalid Bant_genisligi_kisiti_saglanmadi)) \<and>
         (\<exists>m. aco_get_path_metrics M g w (Some p) demand_bw = Inr m \<and>
            (valid m \<longleftrightarrow> Fin demand_bw \<le> bottleneck g (Fin 0) p) \<and>
            (\<not> valid m \<longrightarrow> m = Invalid Bant_genisligi_yetersiz))"
  using ql_metrics_verdict [OF assms] aco_metrics_verdict [OF assms] by blast

theorem get_path_metrics_valid_iff_feasible_witness:
  "is_walk ring4 [0, 1, 2] \<and> 2 \<le> length [0, 1, 2 :: node] \<and>
   ql_get_path_metrics example_cost_model ring4 delay_only (Some [0, 1, 2]) 5 \<noteq> Inl KeyError \<and>
   (\<exists>m. ql_get_path_metrics example_cost_model ring4 delay_only (Some [0, 1, 2]) 5 = Inr m \<and>
        (valid m \<longleftrightarrow> Fin 5 \<le> bottleneck ring4 PInf [0, 1, 2])) \<and>
   (\<exists>m. aco_get_path_metrics example_cost_model ring4 delay_only (Some [0, 1, 2]) 5 = Inr m \<and>
        (valid m \<longleftrightarrow> Fin 5 \<le> bottleneck ring4 (Fin 0) [0, 1, 2]))"
proof -
  have w: "is_walk ring4 [0, 1, 2]"
    by (simp add: is_walk_def ring4_def nbrs_def node_ids_def)
  have l: "2 \<le> length [0, 1, 2 :: node]" by simp
  from get_path_metrics_valid_iff_feasible [OF w l, of example_cost_model delay_only 5] w l
  show ?thesis by auto
qed

lemma bottleneck_ge_iff:
  "x \<le> bottleneck g dflt p \<longleftrightarrow> (\<forall>e \<in> set (edge_pairs p). x \<le> edge_bw g dflt e)"
  by (simp add: bottleneck_def)

lemma link2_walk: "is_walk link2 [0, 1]"
  by (simp add: is_walk_def link2_def nbrs_def node_ids_def)

lemma link2_ql_valid:
  "\<exists>m. ql_get_path_metrics M link2 w (Some [0, 1]) 5 = Inr m \<and> valid m"
  by (simp add: ql_get_path_metrics_def total_reliability_of_def edge_lookup_def node_lookup_def
      link2_def bare_edge_def ring_node_def get_or_def py_min_def less_ext_def Let_def)

lemma link2_aco_invalid:
  "\<exists>m. aco_get_path_metrics M link2 w (Some [0, 1]) 5 = Inr m \<and> \<not> valid m"
  by (simp add: aco_get_path_metrics_def total_reliability_of_def edge_lookup_def node_lookup_def
      link2_def bare_edge_def ring_node_def get_or_def less_ext_def Let_def)

text \<open>
  Claim C9. Where an edge of the path carries no bandwidth attribute, the Q-learning
  router's \<^verbatim>\<open>get_path_metrics\<close> takes it as unbounded, so its verdict depends on
  the other edges only, while the ant colony router's takes it as 0 and reports every
  positive demand as not met. Hence there are a graph, a path and a positive demand on
  which the Q-learning router answers valid and the ant colony router invalid.
\<close>

theorem missing_bandwidth_opposite_verdicts:
  assumes "is_walk g p" and "2 \<le> length p" and "0 < demand_bw"
    and "(u, v) \<in> set (edge_pairs p)"
    and "map_of (g_adj g u) v = Some a" and "bandwidth a = None"
  shows "edge_bw g PInf (u, v) = PInf \<and> edge_bw g (Fin 0) (u, v) = Fin 0 \<and>
         (\<exists>m. ql_get_path_metrics M g w (Some p) demand_bw = Inr m \<and>
              (valid m \<longleftrightarrow>
                 (\<forall>e \<in> set (edge_pairs p) - {(u, v)}. Fin demand_bw \<le> edge_bw g PInf e))) \<and>
         aco_get_path_metrics M g w (Some p) demand_bw = Inr (Invalid Bant_genisligi_yetersiz) \<and>
         (\<exists>g' p' d'. 0 < d' \<and>
              (\<exists>m. ql_get_path_metrics M g' w (Some p') d' = Inr m \<and> valid m) \<and>
              (\<exists>m. aco_get_path_metrics M g' w (Some p') d' = Inr m \<and> \<not> valid m))"
proof -
  have inf: "edge_bw g PInf (u, v) = PInf"
    using assms(5,6) by (simp add: edge_bw_def get_or_def)
  have zero: "edge_bw g (Fin 0) (u, v) = Fin 0"
    using assms(5,6) by (simp add: edge_bw_def get_or_def)
  obtain m where m: "ql_get_path_metrics M g w (Some p) demand_bw = Inr m"
    and vm: "valid m \<longleftrightarrow> Fin demand_bw \<le> bottleneck g PInf p"
    using ql_metrics_verdict [OF assms(1,2)] by blast
  have "Fin demand_bw \<le> bottleneck g PInf p \<longleftrightarrow>
          (\<forall>e \<in> set (edge_pairs p) - {(u, v)}. Fin demand_bw \<le> edge_bw g PInf e)"
    using inf by (auto simp: bottleneck_ge_iff)
  with m vm have ql: "\<exists>m. ql_get_path_metrics M g w (Some p) demand_bw = Inr m \<and>
              (valid m \<longleftrightarrow>
                 (\<forall>e \<in> set (edge_pairs p) - {(u, v)}. Fin demand_bw \<le> edge_bw g PInf e))"
    by simp
  obtain m' where m': "aco_get_path_metrics M g w (Some p) demand_bw = Inr m'"
    and vm': "valid m' \<longleftrightarrow> Fin demand_bw \<le> bottleneck g (Fin 0) p"
    and im': "\<not> valid m' \<longrightarrow> m' = Invalid Bant_genisligi_yetersiz"
    using aco_metrics_verdict [OF assms(1,2)] by blast
  have "\<not> Fin demand_bw \<le> edge_bw g (Fin 0) (u, v)"
    using assms(3) zero by simp
  with assms(4) have "\<not> Fin demand_bw \<le> bottleneck g (Fin 0) p"
    unfolding bottleneck_ge_iff by blast
  with m' vm' im' have aco:
    "aco_get_path_metrics M g w (Some p) demand_bw = Inr (Invalid Bant_genisligi_yetersiz)"
    by simp
  have ex: "\<exists>g' p' d'. 0 < d' \<and>
              (\<exists>m. ql_get_path_metrics M g' w (Some p') d' = Inr m \<and> valid m) \<and>
              (\<exists>m. aco_get_path_metrics M g' w (Some p') d' = Inr m \<and> \<not> valid m)"
    using link2_ql_valid [of M w] link2_aco_invalid [of M w]
    by (intro exI [of _ link2] exI [of _ "[0, 1]"] exI [of _ 5]) simp
  from inf zero ql aco ex show ?thesis by blast
qed

theorem missing_bandwidth_opposite_verdicts_witness:
  "is_walk link2 [0, 1] \<and> 2 \<le> length [0, 1 :: node] \<and> (0 :: real) < 5 \<and>
   (0, 1) \<in> set (edge_pairs [0, 1 :: node]) \<and>
   map_of (g_adj link2 0) 1 = Some bare_edge \<and> bandwidth bare_edge = None \<and>
   (\<exists>m. ql_get_path_metrics example_cost_model link2 delay_only (Some [0, 1]) 5 = Inr m \<and> valid m) \<and>
   aco_get_path_metrics example_cost_model link2 delay_only (Some [0, 1]) 5
     = Inr (Invalid Bant_genisligi_yetersiz)"
proof -
  have h2: "2 \<le> length [0, 1 :: node]" by simp
  have h3: "(0 :: real) < 5" by simp
  have h4: "(0, 1) \<in> set (edge_pairs [0, 1 :: node])" by simp
  have h5: "map_of (g_adj link2 0) 1 = Some bare_edge" by (simp add: link2_def)
  have h6: "bandwidth bare_edge = None" by (simp add: bare_edge_def)
  from missing_bandwidth_opposite_verdicts [OF link2_walk h2 h3 h4 h5 h6, of example_cost_model delay_only]
    link2_walk h2 h3 h4 h5 h6
  show ?thesis by auto
qed

section \<open>The pheromone update\<close>

lemma edge_pairs_zip: "edge_pairs p = zip p (tl p)"
  by (induction p rule: edge_pairs.induct) simp_all

lemma edge_pairs_distinct: "distinct p \<Longrightarrow> distinct (edge_pairs p)"
  by (simp add: edge_pairs_zip distinct_zipI1)

lemma edge_pairs_no_reverse:
  assumes "distinct p" and "(u, v) \<in> set (edge_pairs p)"
  shows "(v, u) \<notin> set (edge_pairs p)"
proof
  assume rev: "(v, u) \<in> set (edge_pairs p)"
  from assms(2) obtain i where i: "i < length p" "i < length (tl p)" "p ! i = u" "tl p ! i = v"
    by (auto simp: edge_pairs_zip in_set_zip)
  from rev obtain j where j: "j < length p" "j < length (tl p)" "p ! j = v" "tl p ! j = u"
    by (auto simp: edge_pairs_zip in_set_zip)
  from i have iv: "p ! Suc i = v" "Suc i < length p" by (auto simp: nth_tl)
  from j have ju: "p ! Suc j = u" "Suc j < length p" by (auto simp: nth_tl)
  from assms(1) iv j have "j = Suc i" by (auto simp: nth_eq_iff_index_eq)
  moreover from assms(1) ju i have "i = Suc j" by (auto simp: nth_eq_iff_index_eq)
  ultimately show False by simp
qed

lemma add_deposit_apply:
  "add_deposit dep e ph e' = (if e' = e then map_option (\<lambda>x. x + dep) (ph e') else ph e')"
  by (auto simp: add_deposit_def split: option.splits)

lemma deposit_path_other:
  "e \<notin> set ps \<Longrightarrow> prod.swap e \<notin> set ps \<Longrightarrow> deposit_path dep ps ph e = ph e"
proof (induction ps arbitrary: ph)
  case Nil
  then show ?case by simp
next
  case (Cons a ps)
  obtain u v where a: "a = (u, v)" by (cases a)
  from Cons.prems a have "e \<noteq> (u, v)" "e \<noteq> (v, u)" by auto
  with Cons a show ?case by (simp add: add_deposit_apply)
qed

lemma deposit_path_used:
  assumes "distinct ps" and "\<forall>(u, v) \<in> set ps. (v, u) \<notin> set ps"
    and "e \<in> set ps \<or> prod.swap e \<in> set ps"
  shows "deposit_path dep ps ph e = map_option (\<lambda>x. x + dep) (ph e)"
  using assms
proof (induction ps arbitrary: ph)
  case Nil
  then show ?case by simp
next
  case (Cons a ps)
  obtain u v where a: "a = (u, v)" by (cases a)
  from Cons.prems(2) a have uv: "u \<noteq> v" by auto
  show ?case
  proof (cases "e = (u, v) \<or> e = (v, u)")
    case True
    with Cons.prems a have "e \<notin> set ps" "prod.swap e \<notin> set ps" by auto
    then have "deposit_path dep ps ph' e = ph' e" for ph'
      by (rule deposit_path_other)
    with True a uv show ?thesis by (auto simp: add_deposit_apply)
  next
    case False
    with Cons.prems(3) a have in_ps: "e \<in> set ps \<or> prod.swap e \<in> set ps"
      by (cases e) auto
    from Cons.prems have "distinct ps" "\<forall>(u, v) \<in> set ps. (v, u) \<notin> set ps" by auto
    from Cons.IH [OF this in_ps] False a show ?thesis
      by (simp add: add_deposit_apply)
  qed
qed

lemma evaporate_apply:
  "evaporate ev ph e = map_option (\<lambda>x. if x * (1 - ev) < 1 / 100 then 1 / 100 else x * (1 - ev)) (ph e)"
  by (simp add: evaporate_def Let_def)

text \<open>
  Claim C6, as amended. With evaporation 0.5 and every entry of the pheromone table at
  1.0, one update in which a single ant deposits for a path without repeated node and of
  cost \<open>cost\<close> leaves the keys of the table as they were, sets every entry whose edge
  the path crosses, in either direction, to \<open>1.0 * 0.5 + q / (cost + 0.0001)\<close>, and
  every other entry to \<open>max (1.0 * 0.5) 0.01\<close>. The update fails only for the cost
  \<open>- 0.0001\<close>, where the deposit divides by zero.
\<close>

theorem pheromone_update_single_ant:
  assumes "evaporation r = 1/2"
    and "\<forall>e x. pheromones r e = Some x \<longrightarrow> x = 1"
    and "distinct p"
    and "cost + 1 / 10000 \<noteq> 0"
  shows "\<exists>r'. update_pheromones r [(p, cost)] = Inr r' \<and>
           dom (pheromones r') = dom (pheromones r) \<and>
           (\<forall>e \<in> dom (pheromones r).
              pheromones r' e =
                Some (if e \<in> set (edge_pairs p) \<or> prod.swap e \<in> set (edge_pairs p)
                      then 1 * (1/2) + aco_q r / (cost + 1 / 10000)
                      else max (1 * (1/2)) (1 / 100)))"
proof -
  let ?ph = "evaporate (evaporation r) (pheromones r)"
  let ?dep = "aco_q r / (cost + 1 / 10000)"
  let ?ph' = "deposit_path ?dep (edge_pairs p) ?ph"
  have upd: "update_pheromones r [(p, cost)] = Inr (r\<lparr>pheromones := ?ph'\<rparr>)"
    using assms(4) by (simp add: update_pheromones_def)
  have half: "?ph e = Some (1/2)" if "e \<in> dom (pheromones r)" for e
  proof -
    from that obtain y where y: "pheromones r e = Some y" by auto
    with assms(2) have "y = 1" by blast
    with y have "pheromones r e = Some 1" by simp
    then show ?thesis by (simp add: evaporate_apply assms(1))
  qed
  have none: "?ph e = None" if "e \<notin> dom (pheromones r)" for e
    using that by (auto simp: evaporate_apply)
  have norev: "\<forall>(u, v) \<in> set (edge_pairs p). (v, u) \<notin> set (edge_pairs p)"
    using edge_pairs_no_reverse [OF assms(3)] by auto
  have val: "?ph' e = map_option (\<lambda>x. x + (if e \<in> set (edge_pairs p) \<or> prod.swap e \<in> set (edge_pairs p) then ?dep else 0)) (?ph e)" for e
  proof (cases "e \<in> set (edge_pairs p) \<or> prod.swap e \<in> set (edge_pairs p)")
    case True
    then show ?thesis
      using deposit_path_used [OF edge_pairs_distinct [OF assms(3)] norev True] by simp
  next
    case False
    then show ?thesis
      using deposit_path_other [of e "edge_pairs p"] by (simp add: option.map_ident)
  qed
  have dom: "dom ?ph' = dom (pheromones r)"
  proof (rule set_eqI)
    fix e show "e \<in> dom ?ph' \<longleftrightarrow> e \<in> dom (pheromones r)"
      using half [of e] none [of e] by (cases "e \<in> dom (pheromones r)") (auto simp: val)
  qed
  have vals: "\<forall>e \<in> dom (pheromones r).
              ?ph' e =
                Some (if e \<in> set (edge_pairs p) \<or> prod.swap e \<in> set (edge_pairs p)
                      then 1 * (1/2) + aco_q r / (cost + 1 / 10000)
                      else max (1 * (1/2)) (1 / 100))"
    using half by (auto simp: val)
  from upd dom vals show ?thesis by simp
qed


lemma link2_pheromones:
  "pheromones (ACORouter_default link2 w) e = (if e = (0, 1) \<or> e = (1, 0) then Some 1 else None)"
  by (simp add: ACORouter_default_def ACORouter_def initialize_pheromones_def graph_edges_def
      link2_def nbrs_def node_ids_def)

lemma link2_router_fields:
  "evaporation (ACORouter_default link2 w) = 1/2"
  "aco_q (ACORouter_default link2 w) = 100"
  by (simp_all add: ACORouter_default_def ACORouter_def initialize_pheromones_def)

theorem pheromone_update_single_ant_witness:
  "\<exists>r'. update_pheromones (ACORouter_default link2 delay_only) [([0, 1], 1)] = Inr r' \<and>
        pheromones r' (0, 1) = Some (1/2 + 100 / (1 + 1 / 10000)) \<and>
        pheromones r' (1, 0) = Some (1/2 + 100 / (1 + 1 / 10000))"
proof -
  let ?r = "ACORouter_default link2 delay_only"
  have h1: "evaporation ?r = 1/2" by (rule link2_router_fields)
  have h2: "\<forall>e x. pheromones ?r e = Some x \<longrightarrow> x = 1"
    by (simp add: link2_pheromones)
  have h3: "distinct [0, 1 :: node]" by simp
  have h4: "(1 :: real) + 1 / 10000 \<noteq> 0" by simp
  have d: "(0, 1) \<in> dom (pheromones ?r)" "(1, 0) \<in> dom (pheromones ?r)"
    by (simp_all add: link2_pheromones dom_def)
  from pheromone_update_single_ant [OF h1 h2 h3 h4]
  obtain r' where u: "update_pheromones ?r [([0, 1], 1)] = Inr r'"
    and v: "\<forall>e \<in> dom (pheromones ?r).
              pheromones r' e =
                Some (if e \<in> set (edge_pairs [0, 1]) \<or> prod.swap e \<in> set (edge_pairs [0, 1])
                      then 1 * (1/2) + aco_q ?r / (1 + 1 / 10000)
                      else max (1 * (1/2)) (1 / 100))"
    by blast
  from v d(1) have a: "pheromones r' (0, 1) = Some (1/2 + 100 / (1 + 1 / 10000))"
    by (simp add: link2_router_fields)
  from v d(2) have b: "pheromones r' (1, 0) = Some (1/2 + 100 / (1 + 1 / 10000))"
    by (simp add: link2_router_fields)
  from u a b show ?thesis by blast
qed

text \<open>
  The claim as stated fails on the link 0-1 with \<open>q = 100\<close> and a path \<open>[0, 1]\<close> of
  cost 1: the entry of the edge the ant used is \<open>0.5 + 100 / 1.0001\<close>, not
  \<open>0.5 + 100 / 1\<close>, and the entry of the reverse direction receives the deposit too.
\<close>

theorem pheromone_update_counterexample:
  "\<not> isl (update_pheromones (ACORouter_default link2 delay_only) [([0, 1], 1)]) \<and>
   pheromones (projr (update_pheromones (ACORouter_default link2 delay_only) [([0, 1], 1)])) (0, 1)
     = Some (1/2 + 1000000 / 10001) \<and>
   pheromones (projr (update_pheromones (ACORouter_default link2 delay_only) [([0, 1], 1)])) (0, 1)
     \<noteq> Some (1 * (1/2) + aco_q (ACORouter_default link2 delay_only) / 1) \<and>
   pheromones (projr (update_pheromones (ACORouter_default link2 delay_only) [([0, 1], 1)])) (1, 0)
     \<noteq> Some (max (1 * (1/2)) (1 / 100))"
  by (simp add: update_pheromones_def evaporate_apply link2_pheromones link2_router_fields
      add_deposit_apply)

section \<open>One step of a training episode\<close>

lemma foldl_pick_mem:
  "foldl (\<lambda>b x. if P b x then x else b) a xs \<in> insert a (set xs)"
  by (induction xs arbitrary: a) auto

lemma py_max_by_value_mem: "acts \<noteq> [] \<Longrightarrow> py_max_by_value acts \<in> set acts"
proof -
  assume ne: "acts \<noteq> []"
  have "py_max_by_value acts \<in> insert (hd acts) (set (tl acts))"
    unfolding py_max_by_value_def by (rule foldl_pick_mem)
  with ne show ?thesis by (cases acts) auto
qed

lemma select_action_mem: "actions \<noteq> [] \<Longrightarrow> select_action rng ep e r actions \<in> set actions"
  by (simp add: select_action_def py_max_by_value_mem)

lemma record_best_frame [simp]:
  "Q (record_best M d p b r) = Q r"
  "ql_graph (record_best M d p b r) = ql_graph r"
  "ql_weights (record_best M d p b r) = ql_weights r"
  "alpha (record_best M d p b r) = alpha r"
  "gamma (record_best M d p b r) = gamma r"
  "epsilon (record_best M d p b r) = epsilon r"
  "max_steps (record_best M d p b r) = max_steps r"
  "episodes (record_best M d p b r) = episodes r"
  by (simp_all add: record_best_def Let_def)

lemma step_best_frame [simp]:
  "Q (step_best M dst d n p b r) = Q r"
  "ql_graph (step_best M dst d n p b r) = ql_graph r"
  "ql_weights (step_best M dst d n p b r) = ql_weights r"
  "alpha (step_best M dst d n p b r) = alpha r"
  "gamma (step_best M dst d n p b r) = gamma r"
  "epsilon (step_best M dst d n p b r) = epsilon r"
  "max_steps (step_best M dst d n p b r) = max_steps r"
  "episodes (step_best M dst d n p b r) = episodes r"
  by (simp_all add: step_best_def)

lemma ql_advance_cases:
  assumes "ql_advance M dst demand_bw e r row action q_sa attrs = Inr (Some (e', r'))"
  shows "\<exists>next_row.
    Q r action = Some next_row \<and>
    e' = e\<lparr>state := action, visited := insert action (visited e),
            path := path e @ [action],
            min_bw_on_path := min (min_bw_on_path e) (Fin (get_or (bandwidth attrs) 0))\<rparr> \<and>
    r' = (step_best M dst demand_bw action (path e @ [action])
              (min (min_bw_on_path e) (Fin (get_or (bandwidth attrs) 0))) r)
          \<lparr>Q := (Q r)(state e \<mapsto> set_q_value action
              (q_sa + alpha r *
                 (step_reward M r dst demand_bw action (path e @ [action])
                     (min (min_bw_on_path e) (Fin (get_or (bandwidth attrs) 0)))
                  + gamma r * max_default (map snd next_row) 0 - q_sa)) row)\<rparr>"
  using assms by (auto simp: ql_advance_def Let_def split: option.splits)

lemma ql_step_cases:
  assumes "ql_step M rng ep dst demand_bw e r = Inr (Some (e', r'))"
  shows "\<exists>row action q_sa attrs.
    Q r (state e) = Some row \<and>
    (action, q_sa) \<in> set row \<and>
    action \<notin> visited e \<and>
    edge_lookup (ql_graph r) (state e) action = Inr attrs \<and>
    ql_advance M dst demand_bw e r row action q_sa attrs = Inr (Some (e', r'))"
proof -
  from assms obtain row where row: "Q r (state e) = Some row"
    by (auto simp: ql_step_def split: option.splits)
  let ?acts = "filter (\<lambda>(a, _). a \<notin> visited e) row"
  let ?act = "select_action rng ep e r ?acts"
  from assms row have ne: "?acts \<noteq> []"
    by (auto simp: ql_step_def Let_def split: if_splits)
  from select_action_mem [OF ne] have mem: "?act \<in> set ?acts" .
  then have in_row: "(fst ?act, snd ?act) \<in> set row" and unvisited: "fst ?act \<notin> visited e"
    by auto
  from assms row ne obtain attrs where
    attrs: "edge_lookup (ql_graph r) (state e) (fst ?act) = Inr attrs"
    by (auto simp: ql_step_def Let_def split: sum.splits)
  from assms row ne attrs have
    "ql_advance M dst demand_bw e r row (fst ?act) (snd ?act) attrs = Inr (Some (e', r'))"
    by (simp add: ql_step_def Let_def)
  with row in_row unvisited attrs show ?thesis by blast
qed

lemma edge_pairs_snoc: "p \<noteq> [] \<Longrightarrow> edge_pairs (p @ [a]) = edge_pairs p @ [(last p, a)]"
  by (induction p rule: edge_pairs.induct) simp_all

lemma bottleneck_snoc:
  "p \<noteq> [] \<Longrightarrow> bottleneck g dflt (p @ [a]) = min (bottleneck g dflt p) (edge_bw g dflt (last p, a))"
proof -
  assume ne: "p \<noteq> []"
  have fin: "finite (insert PInf (edge_bw g dflt ` set (edge_pairs p)))" by simp
  have "bottleneck g dflt (p @ [a])
          = Min (insert (edge_bw g dflt (last p, a)) (insert PInf (edge_bw g dflt ` set (edge_pairs p))))"
    using ne by (simp add: bottleneck_def edge_pairs_snoc insert_commute)
  also have "\<dots> = min (edge_bw g dflt (last p, a)) (bottleneck g dflt p)"
    unfolding bottleneck_def by (rule Min_insert [OF fin]) simp
  finally show ?thesis by (simp add: min.commute)
qed

lemma edge_lookup_Inr:
  assumes "edge_lookup g u v = Inr attrs"
  shows "v \<in> set (nbrs g u)" and "edge_bw g (Fin 0) (u, v) = Fin (get_or (bandwidth attrs) 0)"
proof -
  from assms have m: "map_of (g_adj g u) v = Some attrs"
    by (auto simp: edge_lookup_def split: option.splits)
  then have "(v, attrs) \<in> set (g_adj g u)" by (rule map_of_SomeD)
  then show "v \<in> set (nbrs g u)" by (force simp: nbrs_def)
  from m show "edge_bw g (Fin 0) (u, v) = Fin (get_or (bandwidth attrs) 0)"
    by (cases "bandwidth attrs") (simp_all add: edge_bw_def get_or_def)
qed

lemma consecutive_edges_snoc:
  "p \<noteq> [] \<Longrightarrow> consecutive_edges g (p @ [a]) \<longleftrightarrow> consecutive_edges g p \<and> a \<in> set (nbrs g (last p))"
  by (auto simp: consecutive_edges_def edge_pairs_snoc)

lemma improved_refl: "improved M src dst d r r"
  by (simp add: improved_def)

lemma improved_trans:
  assumes "improved M src dst d r r'" and "improved M src dst d r' r''"
    and "ql_graph r' = ql_graph r" and "ql_weights r' = ql_weights r"
  shows "improved M src dst d r r''"
  using assms unfolding improved_def by (elim disjE exE conjE) (auto intro: less_trans)

lemma record_best_improved:
  assumes "feasible_route (ql_graph r) src dst d p \<or> \<not> Fin d \<le> b"
  shows "improved M src dst d r (record_best M d p b r)"
  using assms by (auto simp: improved_def record_best_def Let_def)

lemma ql_step_preserves:
  assumes step: "ql_step M rng ep dst d e r = Inr (Some (e', r'))"
    and inv: "episode_inv (ql_graph r) src e"
  shows "episode_inv (ql_graph r) src e'"
    and "improved M src dst d r r'"
    and "ql_graph r' = ql_graph r" and "ql_weights r' = ql_weights r"
    and "max_steps r' = max_steps r" and "episodes r' = episodes r"
proof -
  from ql_step_cases [OF step] obtain row action q_sa attrs where
    row: "Q r (state e) = Some row" and unvisited: "action \<notin> visited e"
    and edge: "edge_lookup (ql_graph r) (state e) action = Inr attrs"
    and adv: "ql_advance M dst d e r row action q_sa attrs = Inr (Some (e', r'))"
    by blast
  let ?b = "min (min_bw_on_path e) (Fin (get_or (bandwidth attrs) 0))"
  let ?p = "path e @ [action]"
  from ql_advance_cases [OF adv] obtain next_row where
    "Q r action = Some next_row \<and>
     e' = e\<lparr>state := action, visited := insert action (visited e),
            path := ?p, min_bw_on_path := ?b\<rparr> \<and>
     r' = (step_best M dst d action ?p ?b r)
          \<lparr>Q := (Q r)(state e \<mapsto> set_q_value action
              (q_sa + alpha r * (step_reward M r dst d action ?p ?b
                  + gamma r * max_default (map snd next_row) 0 - q_sa)) row)\<rparr>" ..
  then have e': "e' = e\<lparr>state := action, visited := insert action (visited e),
            path := ?p, min_bw_on_path := ?b\<rparr>"
    and r': "r' = (step_best M dst d action ?p ?b r)
          \<lparr>Q := (Q r)(state e \<mapsto> set_q_value action
              (q_sa + alpha r * (step_reward M r dst d action ?p ?b
                  + gamma r * max_default (map snd next_row) 0 - q_sa)) row)\<rparr>"
    by blast+
  from inv have ne: "path e \<noteq> []" and hd: "hd (path e) = src"
    and last: "last (path e) = state e" and dist: "distinct (path e)"
    and vis: "set (path e) \<subseteq> visited e" and adj: "consecutive_edges (ql_graph r) (path e)"
    and bw: "min_bw_on_path e = bottleneck (ql_graph r) (Fin 0) (path e)"
    by (simp_all add: episode_inv_def)
  from edge last have nb: "action \<in> set (nbrs (ql_graph r) (last (path e)))"
    and ebw: "edge_bw (ql_graph r) (Fin 0) (last (path e), action) = Fin (get_or (bandwidth attrs) 0)"
    by (simp_all add: edge_lookup_Inr)
  from unvisited vis have fresh: "action \<notin> set (path e)" by auto
  have b: "?b = bottleneck (ql_graph r) (Fin 0) ?p"
    using ne bw ebw by (simp add: bottleneck_snoc)
  show inv': "episode_inv (ql_graph r) src e'"
    using ne hd dist vis adj nb fresh b
    by (auto simp: episode_inv_def e' consecutive_edges_snoc)
  have "feasible_route (ql_graph r) src dst d ?p \<or> \<not> Fin d \<le> ?b" if "action = dst"
    using that ne hd dist adj nb fresh b
    by (auto simp: feasible_route_def consecutive_edges_snoc)
  then have "improved M src dst d r (step_best M dst d action ?p ?b r)"
    by (auto simp: step_best_def improved_refl intro: record_best_improved)
  then show "improved M src dst d r r'"
    by (simp add: r' improved_def)
  show "ql_graph r' = ql_graph r" "ql_weights r' = ql_weights r"
    "max_steps r' = max_steps r" "episodes r' = episodes r"
    by (simp_all add: r')
qed


section \<open>Episodes and training\<close>

lemma episode_inv_steps [simp]: "episode_inv g src (e\<lparr>steps := k\<rparr>) = episode_inv g src e"
  by (simp add: episode_inv_def)

lemma ql_episode_loop_preserves:
  assumes "ql_episode_loop M rng ep dst d n e r = Inr r'"
    and "episode_inv (ql_graph r) src e"
  shows "improved M src dst d r r' \<and> ql_frame r r'"
  using assms
proof (induction n arbitrary: e r)
  case 0
  then show ?case by (simp add: improved_refl ql_frame_def)
next
  case (Suc n)
  show ?case
  proof (cases "state e = dst")
    case True
    with Suc.prems show ?thesis by (simp add: improved_refl ql_frame_def)
  next
    case False
    let ?e = "e\<lparr>steps := steps e + 1\<rparr>"
    from Suc.prems(1) False obtain res where res: "ql_step M rng ep dst d ?e r = Inr res"
      by (auto split: sum.splits)
    show ?thesis
    proof (cases res)
      case None
      with Suc.prems(1) False res show ?thesis by (simp add: improved_refl ql_frame_def)
    next
      case (Some er)
      obtain e1 r1 where er: "er = (e1, r1)" by (cases er)
      from Suc.prems(2) have inv: "episode_inv (ql_graph r) src ?e" by simp
      from res Some er have step: "ql_step M rng ep dst d ?e r = Inr (Some (e1, r1))" by simp
      note p = ql_step_preserves [OF step inv]
      from Suc.prems(1) False step have rest: "ql_episode_loop M rng ep dst d n e1 r1 = Inr r'"
        by simp
      from p(1,3) have "episode_inv (ql_graph r1) src e1" by simp
      from Suc.IH [OF rest this] have "improved M src dst d r1 r'" "ql_frame r1 r'" by simp_all
      with p show ?thesis
        by (auto simp: ql_frame_def intro: improved_trans)
    qed
  qed
qed

lemma bottleneck_single [simp]: "bottleneck g dflt [x] = PInf"
  by (simp add: bottleneck_def)

lemma episode_inv_start:
  "episode_inv g src \<lparr>state = src, visited = {src}, path = [src], steps = 0, min_bw_on_path = PInf\<rparr>"
  by (simp add: episode_inv_def consecutive_edges_def)

lemma decay_epsilon_frame [simp]:
  "best_path (decay_epsilon r) = best_path r"
  "best_cost (decay_epsilon r) = best_cost r"
  "ql_graph (decay_epsilon r) = ql_graph r"
  "ql_weights (decay_epsilon r) = ql_weights r"
  "max_steps (decay_epsilon r) = max_steps r"
  "episodes (decay_epsilon r) = episodes r"
  "Q (decay_epsilon r) = Q r"
  by (simp_all add: decay_epsilon_def)

lemma ql_episode_preserves:
  assumes "ql_episode M rng ep src dst d r = Inr r'"
  shows "improved M src dst d r r' \<and> ql_frame r r'"
proof -
  from assms obtain r1 where
    loop: "ql_episode_loop M rng ep dst d (max_steps r)
             \<lparr>state = src, visited = {src}, path = [src], steps = 0, min_bw_on_path = PInf\<rparr> r = Inr r1"
    and r': "r' = decay_epsilon r1"
    by (auto simp: ql_episode_def split: sum.splits)
  from ql_episode_loop_preserves [OF loop episode_inv_start]
  show ?thesis by (simp add: r' improved_def ql_frame_def)
qed

lemma ql_episodes_preserves:
  assumes "ql_episodes M rng src dst d n ep r = Inr r'"
  shows "improved M src dst d r r' \<and> ql_frame r r'"
  using assms
proof (induction n arbitrary: ep r)
  case 0
  then show ?case by (simp add: improved_refl ql_frame_def)
next
  case (Suc n)
  from Suc.prems obtain r1 where
    first: "ql_episode M rng ep src dst d r = Inr r1"
    and rest: "ql_episodes M rng src dst d n (Suc ep) r1 = Inr r'"
    by (auto split: sum.splits)
  from ql_episode_preserves [OF first] Suc.IH [OF rest] show ?case
    by (auto simp: ql_frame_def intro: improved_trans)
qed

lemma ql_train_improved:
  assumes "ql_train M rng r src dst d = Inr r'"
  shows "improved M src dst d r r'" and "ql_frame r r'"
  using ql_episodes_preserves [of M rng src dst d "episodes r" 0 r r'] assms
  by (simp_all add: ql_train_def)

section \<open>The walk of an ant\<close>




lemma construct_loop_frame:
  assumes "aco_graph r' = aco_graph r" and "pheromones r' = pheromones r"
    and "aco_alpha r' = aco_alpha r" and "beta r' = beta r"
  shows "construct_loop rng it k r' dst d n j a = construct_loop rng it k r dst d n j a"
proof -
  have "probabilities r' cur vs = probabilities r cur vs" for cur vs
    by (induction vs) (simp_all add: assms Let_def split: sum.splits)
  then show ?thesis
    by (induction n arbitrary: j a) (simp_all add: assms(1) Let_def split: sum.splits)
qed

section \<open>Iterations of the colony\<close>





section \<open>Training returns on a well-formed router\<close>

lemma edge_lookup_neighbor:
  "v \<in> set (nbrs g u) \<Longrightarrow> \<exists>a. edge_lookup g u v = Inr a"
  by (cases "map_of (g_adj g u) v") (auto simp: nbrs_def edge_lookup_def map_of_eq_None_iff)

lemma set_q_value_keys [simp]: "fst ` set (set_q_value a v row) = fst ` set row"
  by (induction row) (auto simp: set_q_value_def)

lemma init_Q_row:
  "init_Q g u = (if u \<in> set (node_ids g) then Some (map (\<lambda>nbr. (nbr, 0)) (nbrs g u)) else None)"
proof -
  have "map_of (map (\<lambda>n. (n, f n)) ns) u = (if u \<in> set ns then Some (f u) else None)"
    for f :: "node \<Rightarrow> (node \<times> real) list" and ns
    by (induction ns) auto
  then show ?thesis by (simp add: init_Q_def)
qed

lemma wf_router_init:
  assumes "graph_closed (ql_graph r)"
  shows "wf_router (r\<lparr>Q := init_Q (ql_graph r)\<rparr>)"
  using assms by (auto simp: wf_router_def row_ok_def init_Q_row graph_closed_def)

lemma ql_step_total:
  assumes wf: "wf_router r" and node: "state e \<in> set (node_ids (ql_graph r))"
  shows "ql_step M rng ep dst d e r = Inr None \<or>
         (\<exists>e' r'. ql_step M rng ep dst d e r = Inr (Some (e', r')) \<and>
                  wf_router r' \<and> state e' \<in> set (node_ids (ql_graph r)))"
proof -
  from wf node obtain row where row: "Q r (state e) = Some row"
    and keys: "\<forall>v \<in> fst ` set row. v \<in> set (nbrs (ql_graph r) (state e)) \<and> v \<in> set (node_ids (ql_graph r))"
    by (auto simp: wf_router_def row_ok_def split: option.splits)
  let ?acts = "filter (\<lambda>(a, _). a \<notin> visited e) row"
  show ?thesis
  proof (cases "?acts = []")
    case True
    with row show ?thesis by (simp add: ql_step_def)
  next
    case False
    let ?act = "select_action rng ep e r ?acts"
    from select_action_mem [OF False] have "?act \<in> set row" by auto
    then have "fst ?act \<in> fst ` set row" by (rule imageI)
    with keys have nb: "fst ?act \<in> set (nbrs (ql_graph r) (state e))"
      and nd: "fst ?act \<in> set (node_ids (ql_graph r))" by auto
    from edge_lookup_neighbor [OF nb] obtain attrs where
      attrs: "edge_lookup (ql_graph r) (state e) (fst ?act) = Inr attrs" by blast
    from wf nd obtain next_row where next_row: "Q r (fst ?act) = Some next_row"
      by (auto simp: wf_router_def row_ok_def split: option.splits)
    let ?b = "min (min_bw_on_path e) (Fin (get_or (bandwidth attrs) 0))"
    let ?p = "path e @ [fst ?act]"
    let ?r1 = "step_best M dst d (fst ?act) ?p ?b r"
    let ?v = "snd ?act + alpha r * (step_reward M r dst d (fst ?act) ?p ?b
                  + gamma r * max_default (map snd next_row) 0 - snd ?act)"
    let ?e' = "e\<lparr>state := fst ?act, visited := insert (fst ?act) (visited e),
                  path := ?p, min_bw_on_path := ?b\<rparr>"
    let ?r' = "?r1\<lparr>Q := (Q r)(state e \<mapsto> set_q_value (fst ?act) ?v row)\<rparr>"
    have step: "ql_step M rng ep dst d e r = Inr (Some (?e', ?r'))"
      using row False attrs next_row by (simp add: ql_step_def ql_advance_def Let_def)
    have "wf_router ?r'"
      using wf keys by (auto simp: wf_router_def row_ok_def split: option.splits)
    with step nd show ?thesis by simp
  qed
qed

lemma ql_episode_loop_total:
  assumes "wf_router r" and "state e \<in> set (node_ids (ql_graph r))"
  shows "\<exists>r'. ql_episode_loop M rng ep dst d n e r = Inr r' \<and> wf_router r'"
  using assms
proof (induction n arbitrary: e r)
  case 0
  then show ?case by simp
next
  case (Suc n)
  let ?e = "e\<lparr>steps := steps e + 1\<rparr>"
  from Suc.prems have node: "state ?e \<in> set (node_ids (ql_graph r))" by simp
  from ql_step_total [OF Suc.prems(1) node, of M rng ep dst d]
  show ?case
  proof
    assume "ql_step M rng ep dst d ?e r = Inr None"
    with Suc.prems(1) show ?thesis by simp
  next
    assume "\<exists>e' r'. ql_step M rng ep dst d ?e r = Inr (Some (e', r')) \<and>
                  wf_router r' \<and> state e' \<in> set (node_ids (ql_graph r))"
    then obtain e' r1 where step: "ql_step M rng ep dst d ?e r = Inr (Some (e', r1))"
      and wf1: "wf_router r1" and nd: "state e' \<in> set (node_ids (ql_graph r))" by blast
    from ql_step_cases [OF step] obtain row action q_sa attrs where
      adv: "ql_advance M dst d ?e r row action q_sa attrs = Inr (Some (e', r1))" by blast
    from ql_advance_cases [OF adv] have "ql_graph r1 = ql_graph r" by auto
    with nd have "state e' \<in> set (node_ids (ql_graph r1))" by simp
    from Suc.IH [OF wf1 this] step Suc.prems(1) show ?thesis by simp
  qed
qed

lemma wf_router_decay [simp]: "wf_router (decay_epsilon r) = wf_router r"
  by (simp add: wf_router_def)

lemma ql_episodes_total:
  assumes "wf_router r" and "src \<in> set (node_ids (ql_graph r))"
  shows "\<exists>r'. ql_episodes M rng src dst d n ep r = Inr r' \<and> wf_router r'"
  using assms
proof (induction n arbitrary: ep r)
  case 0
  then show ?case by simp
next
  case (Suc n)
  let ?e0 = "\<lparr>state = src, visited = {src}, path = [src], steps = 0, min_bw_on_path = PInf\<rparr>"
  from Suc.prems have "state ?e0 \<in> set (node_ids (ql_graph r))" by simp
  from ql_episode_loop_total [OF Suc.prems(1) this, of M rng ep dst d "max_steps r"]
  obtain r1 where loop: "ql_episode_loop M rng ep dst d (max_steps r) ?e0 r = Inr r1"
    and wf1: "wf_router r1" by blast
  then have epi: "ql_episode M rng ep src dst d r = Inr (decay_epsilon r1)"
    by (simp add: ql_episode_def)
  from ql_episode_preserves [OF epi] Suc.prems(2)
  have "src \<in> set (node_ids (ql_graph (decay_epsilon r1)))" by (simp add: ql_frame_def)
  from Suc.IH [OF _ this] wf1 epi show ?case by simp
qed

lemma ql_train_total:
  assumes "wf_router r" and "src \<in> set (node_ids (ql_graph r))"
  shows "\<exists>r'. ql_train M rng r src dst d = Inr r' \<and> wf_router r'"
  using ql_episodes_total [OF assms] by (simp add: ql_train_def)

section \<open>The colony's training returns on a safe router\<close>




lemma deposit_all_total:
  assumes "\<forall>c \<in> snd ` set all_paths. c + 1 / 10000 \<noteq> 0"
  shows "\<exists>ph'. deposit_all qc all_paths ph = Inr ph'"
  using assms
proof (induction all_paths arbitrary: ph)
  case Nil
  then show ?case by simp
next
  case (Cons pc rest)
  obtain p c where pc: "pc = (p, c)" by (cases pc)
  with Cons.prems have "c + 1 / 10000 \<noteq> 0" by simp
  moreover from Cons.prems have "\<forall>c \<in> snd ` set rest. c + 1 / 10000 \<noteq> 0" by simp
  ultimately show ?case using Cons.IH pc by simp
qed





section \<open>The path a router returns after training\<close>

lemmas ql_eval =
  ql_train_def small_router_def QLearningRouter_def ql_episode_def numeral_3_eq_3
  ql_step_def init_Q_def node_ids_def nbrs_def ring4_def select_action_def first_choice_def
  edge_lookup_def ql_advance_def Let_def ring_edge_def get_or_def step_best_def step_reward_def
  record_best_def terminal_reward_def decay_epsilon_def set_q_value_def max_default_def
  path_cost_def example_cost_model_def delay_only_def total_delay_of_def less_ext_def






lemma small_router_fields:
  "ql_graph small_router = ring4" "best_path small_router = None"
  by (simp_all add: small_router_def QLearningRouter_def)

lemma small_colony_fields:
  "aco_graph small_colony = ring4"
  by (simp add: small_colony_def ACORouter_def initialize_pheromones_def)











section \<open>What a second training keeps\<close>





section \<open>The degenerate demand\<close>

lemma ql_episodes_degenerate:
  "\<exists>r'. ql_episodes M rng src src d n ep r = Inr r' \<and>
        best_path r' = best_path r \<and> best_cost r' = best_cost r \<and> Q r' = Q r"
proof (induction n arbitrary: ep r)
  case 0
  then show ?case by simp
next
  case (Suc n)
  have loop: "ql_episode_loop M rng ep src d k
          \<lparr>state = src, visited = {src}, path = [src], steps = 0, min_bw_on_path = PInf\<rparr> r = Inr r"
    for k by (cases k) simp_all
  then have "ql_episode M rng ep src src d r = Inr (decay_epsilon r)"
    by (simp add: ql_episode_def)
  with Suc [of "Suc ep" "decay_epsilon r"] show ?case by simp
qed

lemma construct_path_degenerate:
  "nodes r \<noteq> [] \<Longrightarrow> construct_path rng it k r src src d = Inr (Some [src])"
  by (cases "nodes r") (simp_all add: construct_path_def)

lemma ants_loop_degenerate:
  assumes "nodes r \<noteq> []"
    and "aco_best_path r = Some [src] \<and> aco_best_cost r = Fin (calculate_path_cost M r [src])
         \<or> aco_best_cost r = PInf \<and> 0 < n"
  shows "\<exists>k' r'. ants_loop M rng it src src d n k all_paths r
           = Inr (all_paths @ replicate k' ([src], calculate_path_cost M r [src]), r') \<and>
           aco_best_path r' = Some [src] \<and>
           aco_best_cost r' = Fin (calculate_path_cost M r [src]) \<and>
           aco_frame r r' \<and> pheromones r' = pheromones r"
  using assms
proof (induction n arbitrary: k all_paths r)
  case 0
  then have "ants_loop M rng it src src d 0 k all_paths r
           = Inr (all_paths @ replicate 0 ([src], calculate_path_cost M r [src]), r)"
    by simp
  with 0 show ?case unfolding aco_frame_def by blast
next
  case (Suc n)
  let ?c = "calculate_path_cost M r [src]"
  define r1 where "r1 = (if Fin ?c < aco_best_cost r
                      then r\<lparr>aco_best_cost := Fin ?c, aco_best_path := Some [src]\<rparr> else r)"
  have step: "ants_loop M rng it src src d (Suc n) k all_paths r
                = ants_loop M rng it src src d n (Suc k) (all_paths @ [([src], ?c)]) r1"
    using Suc.prems(1) by (simp add: construct_path_degenerate Let_def r1_def)
  have c1: "calculate_path_cost M r1 [src] = ?c"
    by (simp add: r1_def calculate_path_cost_def)
  from Suc.prems(2) have best1: "aco_best_path r1 = Some [src] \<and> aco_best_cost r1 = Fin ?c"
    by (auto simp: r1_def less_ext_def)
  have n1: "nodes r1 \<noteq> []" using Suc.prems(1) by (simp add: r1_def)
  have fr: "aco_frame r r1" "pheromones r1 = pheromones r"
    by (simp_all add: r1_def aco_frame_def)
  from best1 c1 have "aco_best_path r1 = Some [src] \<and>
      aco_best_cost r1 = Fin (calculate_path_cost M r1 [src]) \<or> aco_best_cost r1 = PInf \<and> 0 < n"
    by simp
  from Suc.IH [OF n1 this, of "Suc k" "all_paths @ [([src], ?c)]"] obtain k' r' where
    res: "ants_loop M rng it src src d n (Suc k) (all_paths @ [([src], ?c)]) r1
           = Inr ((all_paths @ [([src], ?c)]) @ replicate k' ([src], ?c), r')"
    and b: "aco_best_path r' = Some [src]" "aco_best_cost r' = Fin ?c"
    and f: "aco_frame r1 r'" "pheromones r' = pheromones r1"
    unfolding c1 by blast
  have "(all_paths @ [([src], ?c)]) @ replicate k' ([src], ?c)
          = all_paths @ replicate (Suc k') ([src], ?c)" by simp
  with res step have "ants_loop M rng it src src d (Suc n) k all_paths r
           = Inr (all_paths @ replicate (Suc k') ([src], ?c), r')" by simp
  moreover from fr f have "aco_frame r r'" "pheromones r' = pheromones r"
    by (simp_all add: aco_frame_def)
  ultimately show ?case using b by blast
qed

lemma deposit_all_replicate:
  "c + 1 / 10000 \<noteq> 0 \<Longrightarrow> \<exists>ph'. deposit_all qc (replicate k (p, c)) ph = Inr ph'"
  by (rule deposit_all_total) auto

lemma iterations_loop_degenerate:
  assumes "nodes r \<noteq> []" and "0 < ant_count r"
    and "calculate_path_cost M r [src] + 1 / 10000 \<noteq> 0"
    and "aco_best_path r = Some [src] \<and> aco_best_cost r = Fin (calculate_path_cost M r [src])
         \<or> aco_best_cost r = PInf \<and> 0 < n"
  shows "\<exists>r'. iterations_loop M rng src src d n it r = Inr r' \<and>
           aco_best_path r' = Some [src] \<and>
           aco_best_cost r' = Fin (calculate_path_cost M r [src])"
  using assms
proof (induction n arbitrary: it r)
  case 0
  then show ?case by simp
next
  case (Suc n)
  let ?c = "calculate_path_cost M r [src]"
  from Suc.prems(2,4)
  have "aco_best_path r = Some [src] \<and> aco_best_cost r = Fin ?c
         \<or> aco_best_cost r = PInf \<and> 0 < ant_count r" by auto
  from ants_loop_degenerate [OF Suc.prems(1) this, of rng it d 0 "[]"] obtain k' r1 where
    ants: "ants_loop M rng it src src d (ant_count r) 0 [] r = Inr (replicate k' ([src], ?c), r1)"
    and b1: "aco_best_path r1 = Some [src]" "aco_best_cost r1 = Fin ?c"
    and f1: "aco_frame r r1" by auto
  from deposit_all_replicate [OF Suc.prems(3)] obtain ph' where
    "deposit_all (aco_q r1) (replicate k' ([src], ?c))
        (evaporate (evaporation r1) (pheromones r1)) = Inr ph'" by blast
  then have upd: "update_pheromones r1 (replicate k' ([src], ?c)) = Inr (r1\<lparr>pheromones := ph'\<rparr>)"
    by (simp add: update_pheromones_def)
  let ?r2 = "r1\<lparr>pheromones := ph'\<rparr>"
  from f1 have c2: "calculate_path_cost M ?r2 [src] = ?c"
    by (simp add: calculate_path_cost_def aco_frame_def)
  from f1 Suc.prems have pre: "nodes ?r2 \<noteq> []" "0 < ant_count ?r2"
    "calculate_path_cost M ?r2 [src] + 1 / 10000 \<noteq> 0"
    by (simp_all add: c2) (simp_all add: aco_frame_def)
  from b1 c2 have "aco_best_path ?r2 = Some [src] \<and>
      aco_best_cost ?r2 = Fin (calculate_path_cost M ?r2 [src]) \<or> aco_best_cost ?r2 = PInf \<and> 0 < n"
    by simp
  from Suc.IH [OF pre this, of "Suc it"] ants upd show ?case by (simp add: c2)
qed

lemma short_path_invalid:
  "ql_get_path_metrics M g w (Some [x]) d = Inr (Invalid Gecerli_bir_yol_bulunamadi)"
  "ql_get_path_metrics M g w None d = Inr (Invalid Gecerli_bir_yol_bulunamadi)"
  "aco_get_path_metrics M g w (Some [x]) d = Inr (Invalid Yol_bulunamadi)"
  "aco_get_path_metrics M g w None d = Inr (Invalid Yol_bulunamadi)"
  by (simp_all add: ql_get_path_metrics_def aco_get_path_metrics_def)


text \<open>
  Claim C3, as amended. For a demand with \<open>src = dst\<close> both engines return. The
  training of the Q-learning router takes no step: it leaves the table and the retained
  path as they were, so a new router returns no path. The training of the ant colony
  router, with at least one iteration of at least one ant on a graph with a node, and a
  cost for the path \<open>[src]\<close> other than \<open>- 0.0001\<close>, returns the path \<open>[src]\<close>. Neither
  router reports the single-node path as a valid answer: \<^verbatim>\<open>get_path_metrics\<close>
  answers every path of fewer than two nodes, and the absent path, with the invalid
  record and its message that no path was found.
\<close>

theorem degenerate_demand:
  "(\<exists>r'. ql_train M rng r src src d = Inr r' \<and>
         ql_get_best_path r' = best_path r \<and> Q r' = Q r) \<and>
   ql_get_best_path (QLearningRouter g w a0 g0 e0 me ed n ms sp pb) = None \<and>
   (nodes c \<noteq> [] \<and> 0 < ant_count c \<and> 0 < iterations c \<and>
    calculate_path_cost M c [src] + 1 / 10000 \<noteq> 0 \<longrightarrow>
      (\<exists>c'. aco_train M rng' c src src d = Inr c' \<and> aco_get_best_path c' = Some [src])) \<and>
   ql_get_path_metrics M g w (Some [src]) d = Inr (Invalid Gecerli_bir_yol_bulunamadi) \<and>
   ql_get_path_metrics M g w None d = Inr (Invalid Gecerli_bir_yol_bulunamadi) \<and>
   aco_get_path_metrics M g w (Some [src]) d = Inr (Invalid Yol_bulunamadi) \<and>
   aco_get_path_metrics M g w None d = Inr (Invalid Yol_bulunamadi)"
proof (intro conjI impI)
  from ql_episodes_degenerate [of M rng src d "episodes r" 0 r]
  show "\<exists>r'. ql_train M rng r src src d = Inr r' \<and>
         ql_get_best_path r' = best_path r \<and> Q r' = Q r"
    by (auto simp: ql_train_def ql_get_best_path_def)
next
  show "ql_get_best_path (QLearningRouter g w a0 g0 e0 me ed n ms sp pb) = None"
    by (simp add: ql_get_best_path_def QLearningRouter_def)
next
  assume pre: "nodes c \<noteq> [] \<and> 0 < ant_count c \<and> 0 < iterations c \<and>
    calculate_path_cost M c [src] + 1 / 10000 \<noteq> 0"
  let ?c0 = "c\<lparr>aco_best_path := None, aco_best_cost := PInf\<rparr>"
  have c0: "calculate_path_cost M ?c0 [src] = calculate_path_cost M c [src]"
    by (simp add: calculate_path_cost_def)
  from pre have "nodes ?c0 \<noteq> []" "0 < ant_count ?c0"
    "calculate_path_cost M ?c0 [src] + 1 / 10000 \<noteq> 0"
    "aco_best_path ?c0 = Some [src] \<and> aco_best_cost ?c0 = Fin (calculate_path_cost M ?c0 [src])
         \<or> aco_best_cost ?c0 = PInf \<and> 0 < iterations c"
    by (simp_all add: c0)
  from iterations_loop_degenerate [OF this, of rng' d 0]
  show "\<exists>c'. aco_train M rng' c src src d = Inr c' \<and> aco_get_best_path c' = Some [src]"
    by (auto simp: aco_train_def aco_get_best_path_def)
qed (simp_all add: short_path_invalid)

lemma small_colony_degenerate_pre:
  "nodes small_colony \<noteq> [] \<and> 0 < ant_count small_colony \<and> 0 < iterations small_colony \<and>
   calculate_path_cost example_cost_model small_colony [0] + 1 / 10000 \<noteq> 0"
  by (simp add: small_colony_def ACORouter_def initialize_pheromones_def node_ids_def ring4_def
      calculate_path_cost_def path_cost_def example_cost_model_def total_delay_of_def)

theorem degenerate_demand_witness:
  "nodes small_colony \<noteq> [] \<and> 0 < ant_count small_colony \<and> 0 < iterations small_colony \<and>
   calculate_path_cost example_cost_model small_colony [0] + 1 / 10000 \<noteq> 0 \<and>
   (\<exists>c'. aco_train example_cost_model first_ant small_colony 0 0 5 = Inr c' \<and>
         aco_get_best_path c' = Some [0]) \<and>
   (\<exists>r'. ql_train example_cost_model first_choice small_router 0 0 5 = Inr r' \<and>
         ql_get_best_path r' = None)"
proof -
  note d = degenerate_demand [of example_cost_model first_choice small_router 0 5
      ring4 delay_only 0 0 0 0 0 0 0 0 0 small_colony first_ant]
  from d small_colony_degenerate_pre
  have aco: "\<exists>c'. aco_train example_cost_model first_ant small_colony 0 0 5 = Inr c' \<and>
         aco_get_best_path c' = Some [0]" by blast
  from d have "\<exists>r'. ql_train example_cost_model first_choice small_router 0 0 5 = Inr r' \<and>
         ql_get_best_path r' = best_path small_router" by blast
  then have ql: "\<exists>r'. ql_train example_cost_model first_choice small_router 0 0 5 = Inr r' \<and>
         ql_get_best_path r' = None" by (simp add: small_router_fields)
  from small_colony_degenerate_pre aco ql show ?thesis by blast
qed

text \<open>
  The claim as stated fails on the ring for the demand from node 0 to node 0: the
  Q-learning router returns no path after training, and both routers answer the
  single-node path \<open>[0]\<close> with the invalid record.
\<close>

theorem degenerate_demand_counterexample:
  "\<not> isl (ql_train example_cost_model first_choice small_router 0 0 5) \<and>
   ql_get_best_path (projr (ql_train example_cost_model first_choice small_router 0 0 5)) = None \<and>
   ql_get_path_metrics example_cost_model ring4 delay_only (Some [0]) 5
     = Inr (Invalid Gecerli_bir_yol_bulunamadi) \<and>
   aco_get_path_metrics example_cost_model ring4 delay_only (Some [0]) 5
     = Inr (Invalid Yol_bulunamadi) \<and>
   \<not> valid (Invalid Gecerli_bir_yol_bulunamadi) \<and> \<not> valid (Invalid Yol_bulunamadi)"
  by (simp add: ql_eval ql_get_best_path_def short_path_invalid)

section \<open>The temporal-difference update\<close>

lemma map_of_set_q_value:
  "map_of (set_q_value a v row) k =
     (if k = a then (if a \<in> fst ` set row then Some v else None) else map_of row k)"
  by (induction row) (force simp: set_q_value_def)+

lemma foldl_max_real:
  "foldl (\<lambda>m x. if m < x then x else m) (a::real) xs = Max (insert a (set xs))"
proof -
  have "(\<lambda>m x. if m < x then x else m) = (\<lambda>m x. max x (m::real))"
    by (auto simp: max_def fun_eq_iff)
  then have "foldl (\<lambda>m x. if m < x then x else m) a xs = fold max xs a"
    by (simp add: foldl_conv_fold)
  also have "\<dots> = Max (set (a # xs))"
    by (rule Max.set_eq_fold [symmetric])
  finally show ?thesis by simp
qed

lemma max_default_max_q: "max_default (map snd row) 0 = max_q row"
  by (cases row) (simp_all add: max_default_def max_q_def foldl_max_real)

text \<open>
  Claim C7, as amended. Every step of a training episode that moves from \<open>s\<close> to the
  chosen neighbour \<open>a\<close> replaces \<open>Q[s][a]\<close> by
  \<open>Q[s][a] + alpha * (reward + gamma * max (Q[a] values) - Q[s][a])\<close> and leaves every
  other entry of the table as it was. The reward is \<open>step_penalty + progress_bonus\<close>
  unless \<open>a\<close> is \<open>dst\<close>; there it is 2000 divided by the larger of the weighted cost
  of the path and \<open>10\<^sup>-\<^sup>6\<close> when the running bottleneck is at least the demand, and
  \<open>-1\<close> otherwise.
\<close>

theorem td_update_rule:
  assumes "ql_step M rng ep dst d e r = Inr (Some (e', r'))"
    and "rows_are_dicts r"
  shows "\<exists>q_sa next_row.
           q_value (Q r) (state e) (state e') = Some q_sa \<and>
           Q r (state e') = Some next_row \<and>
           q_value (Q r') (state e) (state e') =
             Some (q_sa + alpha r * (td_reward M r dst d e' + gamma r * max_q next_row - q_sa)) \<and>
           (\<forall>s a. (s, a) \<noteq> (state e, state e') \<longrightarrow> q_value (Q r') s a = q_value (Q r) s a)"
proof -
  from ql_step_cases [OF assms(1)] obtain row action q_sa attrs where
    row: "Q r (state e) = Some row" and mem: "(action, q_sa) \<in> set row"
    and adv: "ql_advance M dst d e r row action q_sa attrs = Inr (Some (e', r'))"
    by blast
  let ?b = "min (min_bw_on_path e) (Fin (get_or (bandwidth attrs) 0))"
  let ?p = "path e @ [action]"
  from ql_advance_cases [OF adv] obtain next_row where
    "Q r action = Some next_row \<and>
     e' = e\<lparr>state := action, visited := insert action (visited e),
            path := ?p, min_bw_on_path := ?b\<rparr> \<and>
     r' = (step_best M dst d action ?p ?b r)
          \<lparr>Q := (Q r)(state e \<mapsto> set_q_value action
              (q_sa + alpha r * (step_reward M r dst d action ?p ?b
                  + gamma r * max_default (map snd next_row) 0 - q_sa)) row)\<rparr>" ..
  then have nr: "Q r action = Some next_row"
    and e': "e' = e\<lparr>state := action, visited := insert action (visited e),
            path := ?p, min_bw_on_path := ?b\<rparr>"
    and r': "r' = (step_best M dst d action ?p ?b r)
          \<lparr>Q := (Q r)(state e \<mapsto> set_q_value action
              (q_sa + alpha r * (step_reward M r dst d action ?p ?b
                  + gamma r * max_default (map snd next_row) 0 - q_sa)) row)\<rparr>"
    by blast+
  have st: "state e' = action" by (simp add: e')
  from assms(2) row have "distinct (map fst row)" by (simp add: rows_are_dicts_def)
  with mem have old: "q_value (Q r) (state e) action = Some q_sa"
    by (simp add: q_value_def row)
  have rew: "step_reward M r dst d action ?p ?b = td_reward M r dst d e'"
    by (simp add: e' step_reward_def td_reward_def terminal_reward_def Let_def)
  from mem have key: "action \<in> fst ` set row" by force
  have new: "q_value (Q r') (state e) action =
      Some (q_sa + alpha r * (td_reward M r dst d e' + gamma r * max_q next_row - q_sa))"
    using key by (simp add: r' q_value_def map_of_set_q_value rew max_default_max_q)
  have other: "q_value (Q r') s a = q_value (Q r) s a" if "(s, a) \<noteq> (state e, action)" for s a
    using that row by (auto simp: r' q_value_def map_of_set_q_value)
  from old nr new other show ?thesis unfolding st by blast
qed


lemmas step_eval =
  small_router_def tiny_router_def QLearningRouter_def at_start_def at_middle_def
  ql_step_def init_Q_def node_ids_def nbrs_def ring4_def select_action_def first_choice_def
  edge_lookup_def ql_advance_def Let_def ring_edge_def get_or_def step_best_def step_reward_def
  record_best_def terminal_reward_def set_q_value_def max_default_def
  path_cost_def example_cost_model_def delay_only_def tiny_delay_def total_delay_of_def
  less_ext_def q_value_def

lemma small_router_dicts: "rows_are_dicts small_router"
  by (auto simp: rows_are_dicts_def small_router_def QLearningRouter_def init_Q_row
      node_ids_def nbrs_def ring4_def split: if_splits)

lemma small_step:
  "\<not> isl (ql_step example_cost_model first_choice 0 2 5 at_start small_router) \<and>
   projr (ql_step example_cost_model first_choice 0 2 5 at_start small_router) \<noteq> None \<and>
   state (fst (the (projr (ql_step example_cost_model first_choice 0 2 5 at_start small_router)))) = 1"
  by (simp add: step_eval)

theorem td_update_rule_witness:
  "rows_are_dicts small_router \<and>
   (\<exists>e' r'. ql_step example_cost_model first_choice 0 2 5 at_start small_router
              = Inr (Some (e', r')) \<and>
       state e' = 1 \<and>
       q_value (Q small_router) 0 1 = Some 0 \<and>
       q_value (Q r') 0 1 = Some (0 + 15/100 * ((- 2 + 1/2) + 92/100 * 0 - 0)))"
proof -
  let ?res = "ql_step example_cost_model first_choice 0 2 5 at_start small_router"
  let ?e' = "fst (the (projr ?res))"
  let ?r' = "snd (the (projr ?res))"
  from small_step have eq: "?res = Inr (Some (?e', ?r'))"
    by (cases ?res) auto
  have st: "state ?e' = 1" "state at_start = 0" using small_step by (simp_all add: at_start_def)
  from td_update_rule [OF eq small_router_dicts] obtain q_sa next_row where
    old: "q_value (Q small_router) (state at_start) (state ?e') = Some q_sa"
    and nr: "Q small_router (state ?e') = Some next_row"
    and new: "q_value (Q ?r') (state at_start) (state ?e') =
             Some (q_sa + alpha small_router *
               (td_reward example_cost_model small_router 2 5 ?e'
                + gamma small_router * max_q next_row - q_sa))"
    by blast
  have q0: "q_value (Q small_router) 0 1 = Some 0"
    by (simp add: step_eval)
  with old st have q_sa: "q_sa = 0" by simp
  have "Q small_router 1 = Some [(0, 0), (2, 0)]" by (simp add: step_eval)
  with nr st have next_row: "next_row = [(0, 0), (2, 0)]" by simp
  have rew: "td_reward example_cost_model small_router 2 5 ?e' = - 2 + 1/2"
    using st by (simp add: td_reward_def small_router_def QLearningRouter_def)
  have par: "alpha small_router = 15/100" "gamma small_router = 92/100"
    by (simp_all add: small_router_def QLearningRouter_def)
  have "max_q [(0, 0), (2, 0)] = 0" by (simp add: max_q_def)
  with new st q_sa next_row rew par
  have "q_value (Q ?r') 0 1 = Some (0 + 15/100 * ((- 2 + 1/2) + 92/100 * 0 - 0))"
    by simp
  with eq st q0 small_router_dicts show ?thesis by blast
qed

text \<open>
  The claim as stated fails where the weighted cost is below \<open>10\<^sup>-\<^sup>6\<close>. On the ring
  with a delay weight of \<open>1 / 4000000\<close> the path \<open>[0, 1, 2]\<close> costs \<open>1 / 2000000\<close>; the
  step that reaches node 2 sets \<open>Q[1][2]\<close> to \<open>0.15 * (2000 / 10\<^sup>-\<^sup>6)\<close>, which is
  \<open>3 * 10\<^sup>8\<close>, not to \<open>0.15 * (2000 / cost)\<close>.
\<close>

theorem td_update_rule_counterexample:
  "\<not> isl (ql_step example_cost_model first_choice 0 2 5 at_middle tiny_router) \<and>
   projr (ql_step example_cost_model first_choice 0 2 5 at_middle tiny_router) \<noteq> None \<and>
   path_cost example_cost_model ring4 tiny_delay [0, 1, 2] = 1 / 2000000 \<and>
   q_value (Q tiny_router) 1 2 = Some 0 \<and>
   q_value (Q (snd (the (projr
       (ql_step example_cost_model first_choice 0 2 5 at_middle tiny_router))))) 1 2
     = Some 300000000 \<and>
   (300000000 :: real) \<noteq>
     0 + alpha tiny_router *
       (2000 / path_cost example_cost_model ring4 tiny_delay [0, 1, 2]
        + gamma tiny_router * 0 - 0)"
  by (simp add: step_eval)

section \<open>Pheromones across trainings\<close>










section \<open>Several independent runs\<close>

lemma reset_learning_fields [simp]:
  "Q (reset_learning r) = init_Q (ql_graph r)"
  "best_path (reset_learning r) = None"
  "best_cost (reset_learning r) = PInf"
  "epsilon (reset_learning r) = 1"
  "ql_graph (reset_learning r) = ql_graph r"
  "ql_weights (reset_learning r) = ql_weights r"
  by (simp_all add: reset_learning_def)

lemma run_from_fresh:
  assumes "ql_train M rng (reset_learning r) src dst d = Inr x"
  shows "run_result_ok M src dst d r x"
proof -
  from ql_train_improved [OF assms]
  have imp: "improved M src dst d (reset_learning r) x" and fr: "ql_frame (reset_learning r) x" .
  from fr have g: "ql_graph x = ql_graph r" "ql_weights x = ql_weights r"
    by (simp_all add: ql_frame_def)
  from imp g show ?thesis
    by (auto simp: improved_def run_result_ok_def split: option.splits)
qed

lemma ql_runs_states:
  assumes "ql_runs M rngs src dst d n i gb r = Inr (gb', r')"
  shows "\<exists>rs. ql_run_states M rngs src dst d n i r = Inr rs \<and> length rs = n \<and>
              gb' = foldl (\<lambda>gb x. keep_global_best M x gb) gb rs \<and>
              (\<forall>x \<in> set rs. run_result_ok M src dst d r x)"
  using assms
proof (induction n arbitrary: i gb r)
  case 0
  then show ?case by simp
next
  case (Suc n)
  from Suc.prems obtain x where
    tr: "ql_train M (rngs i) (reset_learning r) src dst d = Inr x"
    and rest: "ql_runs M rngs src dst d n (Suc i) (keep_global_best M x gb) x = Inr (gb', r')"
    by (auto split: sum.splits)
  from run_from_fresh [OF tr] have ok: "run_result_ok M src dst d r x" .
  then have g: "ql_graph x = ql_graph r" "ql_weights x = ql_weights r"
    by (simp_all add: run_result_ok_def)
  from Suc.IH [OF rest] obtain rs where
    rs: "ql_run_states M rngs src dst d n (Suc i) x = Inr rs" "length rs = n"
      "gb' = foldl (\<lambda>gb x. keep_global_best M x gb) (keep_global_best M x gb) rs"
    and all: "\<forall>y \<in> set rs. run_result_ok M src dst d x y"
    by blast
  from all g have "\<forall>y \<in> set rs. run_result_ok M src dst d r y"
    by (auto simp: run_result_ok_def split: option.splits)
  with tr rs ok show ?case by simp
qed

text \<open>
  The pair of cost and path that the comparisons of \<^verbatim>\<open>run_multiple\<close> build from
  the runs: nothing while no run retained a path, otherwise a retained path of least
  cost among the runs seen.
\<close>

lemma keep_global_best_fold:
  assumes "\<forall>x \<in> set rs. run_result_ok M src dst d r x"
    and "gb = (PInf, None) \<or>
         (\<exists>p. gb = (Fin (path_cost M (ql_graph r) (ql_weights r) p), Some p) \<and>
              feasible_route (ql_graph r) src dst d p)"
  shows "let gb' = foldl (\<lambda>gb x. keep_global_best M x gb) gb rs in
         (snd gb' = None \<longleftrightarrow> snd gb = None \<and> (\<forall>x \<in> set rs. best_path x = None)) \<and>
         (snd gb' = None \<longrightarrow> fst gb' = PInf) \<and>
         (\<forall>p. snd gb' = Some p \<longrightarrow>
              fst gb' = Fin (path_cost M (ql_graph r) (ql_weights r) p) \<and>
              feasible_route (ql_graph r) src dst d p \<and>
              fst gb' \<le> fst gb \<and>
              (\<forall>x \<in> set rs. \<forall>p'. best_path x = Some p' \<longrightarrow>
                  path_cost M (ql_graph r) (ql_weights r) p
                    \<le> path_cost M (ql_graph r) (ql_weights r) p'))"
  using assms
proof (induction rs arbitrary: gb)
  case Nil
  then show ?case by (auto simp: Let_def)
next
  case (Cons x rs)
  let ?c = "path_cost M (ql_graph r) (ql_weights r)"
  let ?gb1 = "keep_global_best M x gb"
  from Cons.prems(1) have okx: "run_result_ok M src dst d r x"
    and okrs: "\<forall>y \<in> set rs. run_result_ok M src dst d r y" by simp_all
  from okx have g: "ql_graph x = ql_graph r" "ql_weights x = ql_weights r"
    by (simp_all add: run_result_ok_def)
  have inv1: "?gb1 = (PInf, None) \<or>
         (\<exists>p. ?gb1 = (Fin (?c p), Some p) \<and> feasible_route (ql_graph r) src dst d p)"
    using Cons.prems(2) okx
    by (auto simp: keep_global_best_def run_result_ok_def g Let_def split: option.splits)
  have none1: "snd ?gb1 = None \<longleftrightarrow> snd gb = None \<and> best_path x = None"
    using Cons.prems(2)
    by (auto simp: keep_global_best_def g Let_def less_ext_def split: option.splits)
  have le1: "fst ?gb1 \<le> fst gb"
    by (auto simp: keep_global_best_def Let_def split: option.splits)
  have dom1: "fst ?gb1 \<le> Fin (?c p')" if "best_path x = Some p'" for p'
    using that by (auto simp: keep_global_best_def g Let_def)
  note IH = Cons.IH [OF okrs inv1, unfolded Let_def]
  let ?gb' = "foldl (\<lambda>gb x. keep_global_best M x gb) ?gb1 rs"
  have "snd ?gb' = None \<longleftrightarrow> snd gb = None \<and> (\<forall>y \<in> set (x # rs). best_path y = None)"
    using IH none1 by auto
  moreover have "snd ?gb' = None \<longrightarrow> fst ?gb' = PInf" using IH by blast
  moreover have "fst ?gb' = Fin (?c p) \<and> feasible_route (ql_graph r) src dst d p \<and>
        fst ?gb' \<le> fst gb \<and>
        (\<forall>y \<in> set (x # rs). \<forall>p'. best_path y = Some p' \<longrightarrow> ?c p \<le> ?c p')"
    if p: "snd ?gb' = Some p" for p
  proof -
    from IH p have a: "fst ?gb' = Fin (?c p)" "feasible_route (ql_graph r) src dst d p"
      "fst ?gb' \<le> fst ?gb1"
      "\<forall>y \<in> set rs. \<forall>p'. best_path y = Some p' \<longrightarrow> ?c p \<le> ?c p'"
      by blast+
    from a(3) le1 have "fst ?gb' \<le> fst gb" by (rule order.trans)
    moreover have "?c p \<le> ?c p'" if "best_path x = Some p'" for p'
    proof -
      from a(3) dom1 [OF that] have "fst ?gb' \<le> Fin (?c p')" by (rule order.trans)
      with a(1) show ?thesis by simp
    qed
    ultimately show ?thesis using a by auto
  qed
  ultimately show ?case unfolding Let_def foldl_Cons by blast
qed

text \<open>
  What \<^verbatim>\<open>run_multiple\<close> returns, whatever the level of epsilon: every run
  starts from the zero table, without a retained path; the result is nothing exactly
  when no run retained a path, and otherwise a feasible route whose cost is at most the
  cost of the path of every run and at most the cost every run recorded.
\<close>

lemma run_multiple_dominance:
  assumes "run_multiple M rngs r src dst d runs = Inr (result, r')"
  shows "\<exists>rs. ql_run_states M rngs src dst d runs 0 r = Inr rs \<and> length rs = runs \<and>
           best_path r' = result \<and>
           (result = None \<longleftrightarrow> (\<forall>x \<in> set rs. best_path x = None)) \<and>
           (\<forall>p. result = Some p \<longrightarrow>
                feasible_route (ql_graph r) src dst d p \<and>
                best_cost r' = Fin (path_cost M (ql_graph r) (ql_weights r) p) \<and>
                (\<forall>x \<in> set rs. \<forall>p'. best_path x = Some p' \<longrightarrow>
                    path_cost M (ql_graph r) (ql_weights r) p
                      \<le> path_cost M (ql_graph r) (ql_weights r) p' \<and>
                    Fin (path_cost M (ql_graph r) (ql_weights r) p) \<le> best_cost x))"
proof -
  let ?c = "path_cost M (ql_graph r) (ql_weights r)"
  from assms obtain gc r1 where
    runs: "ql_runs M rngs src dst d runs 0 (PInf, None) r = Inr ((gc, result), r1)"
    and r': "r' = r1\<lparr>best_path := result, best_cost := gc\<rparr>"
    by (auto simp: run_multiple_def split: sum.splits prod.splits)
  from ql_runs_states [OF runs] obtain rs where
    rs: "ql_run_states M rngs src dst d runs 0 r = Inr rs" "length rs = runs"
    and gb: "(gc, result) = foldl (\<lambda>gb x. keep_global_best M x gb) (PInf, None) rs"
    and ok: "\<forall>x \<in> set rs. run_result_ok M src dst d r x"
    by blast
  have "(PInf, None) = (PInf, None) \<or>
         (\<exists>p. (PInf, None) = (Fin (?c p), Some p) \<and> feasible_route (ql_graph r) src dst d p)"
    by simp
  note f = keep_global_best_fold [OF ok this, unfolded Let_def, folded gb]
  have none: "result = None \<longleftrightarrow> (\<forall>x \<in> set rs. best_path x = None)"
    using f by simp
  have some: "feasible_route (ql_graph r) src dst d p \<and> best_cost r' = Fin (?c p) \<and>
      (\<forall>x \<in> set rs. \<forall>p'. best_path x = Some p' \<longrightarrow>
          ?c p \<le> ?c p' \<and> Fin (?c p) \<le> best_cost x)"
    if p: "result = Some p" for p
  proof -
    from f p have a: "gc = Fin (?c p)" "feasible_route (ql_graph r) src dst d p"
      "\<forall>x \<in> set rs. \<forall>p'. best_path x = Some p' \<longrightarrow> ?c p \<le> ?c p'"
      by simp_all
    have "Fin (?c p) \<le> best_cost x" if x: "x \<in> set rs" "best_path x = Some p'" for x p'
    proof -
      from ok x have "best_cost x = Fin (max (?c p') (1 / 1000000))"
        by (auto simp: run_result_ok_def)
      moreover from a(3) x have "?c p \<le> ?c p'" by blast
      ultimately show ?thesis by simp
    qed
    with a show ?thesis by (auto simp: r')
  qed
  from rs none some show ?thesis by (auto simp: r')
qed


lemma wf_router_reset:
  "graph_closed (ql_graph r) \<Longrightarrow> wf_router (reset_learning r)"
  using wf_router_init [of r] by (simp add: wf_router_def reset_learning_def)

lemma ql_runs_total:
  assumes "graph_closed (ql_graph r)" and "src \<in> set (node_ids (ql_graph r))"
  shows "\<exists>res. ql_runs M rngs src dst d n i gb r = Inr res"
  using assms
proof (induction n arbitrary: i gb r)
  case 0
  then show ?case by simp
next
  case (Suc n)
  from Suc.prems have "wf_router (reset_learning r)"
    "src \<in> set (node_ids (ql_graph (reset_learning r)))"
    by (simp_all add: wf_router_reset)
  from ql_train_total [OF this] obtain x where
    tr: "ql_train M (rngs i) (reset_learning r) src dst d = Inr x" by blast
  from ql_train_improved(2) [OF tr] have "ql_graph x = ql_graph r"
    by (simp add: ql_frame_def)
  with Suc.prems have "graph_closed (ql_graph x)" "src \<in> set (node_ids (ql_graph x))"
    by simp_all
  from Suc.IH [OF this] tr show ?case by simp
qed

lemma run_multiple_total:
  assumes "graph_closed (ql_graph r)" and "src \<in> set (node_ids (ql_graph r))"
  shows "\<exists>result r'. run_multiple M rngs r src dst d runs = Inr (result, r')"
proof -
  from ql_runs_total [OF assms] obtain res where
    "ql_runs M rngs src dst d runs 0 (PInf, None) r = Inr res" by blast
  then show ?thesis
    by (cases res) (auto simp: run_multiple_def split: prod.splits)
qed

lemmas run_eval =
  run_multiple_def reset_learning_def keep_global_best_def
  ql_train_def half_router_def QLearningRouter_def ql_episode_def numeral_3_eq_3
  ql_step_def init_Q_def node_ids_def nbrs_def ring4_def select_action_def half_choice_def
  edge_lookup_def ql_advance_def Let_def ring_edge_def get_or_def step_best_def step_reward_def
  record_best_def terminal_reward_def decay_epsilon_def set_q_value_def max_default_def
  path_cost_def example_cost_model_def delay_only_def total_delay_of_def less_ext_def
  py_max_by_value_def ql_get_best_path_def

lemma default_router_epsilon:
  "epsilon (reset_learning (QLearningRouter_default g w)) = epsilon (QLearningRouter_default g w)"
  by (simp add: QLearningRouter_default_def QLearningRouter_def)

text \<open>
  Claim C5, at the input where the code departs from it. A router constructed with
  \<^verbatim>\<open>initial_epsilon=0.3\<close> starts at epsilon 0.3, but \<^verbatim>\<open>run_multiple\<close> starts its
  run at epsilon 1.0: with random numbers 0.5 the run explores and returns \<open>[0, 3, 2]\<close>
  and leaves epsilon at \<open>1.0 * 0.99\<close>, where a training from the initial level exploits,
  returns \<open>[0, 1, 2]\<close> and leaves epsilon at \<open>0.3 * 0.99\<close>. For a router constructed
  with the default arguments the two levels agree.
\<close>

theorem run_multiple_epsilon_not_initial:
  "epsilon half_router = 3/10 \<and>
   epsilon (reset_learning half_router) = 1 \<and>
   \<not> isl (run_multiple example_cost_model (\<lambda>_. half_choice) half_router 0 2 5 1) \<and>
   fst (projr (run_multiple example_cost_model (\<lambda>_. half_choice) half_router 0 2 5 1))
     = Some [0, 3, 2] \<and>
   epsilon (snd (projr (run_multiple example_cost_model (\<lambda>_. half_choice) half_router 0 2 5 1)))
     = 99/100 \<and>
   \<not> isl (ql_train example_cost_model half_choice half_router 0 2 5) \<and>
   ql_get_best_path (projr (ql_train example_cost_model half_choice half_router 0 2 5))
     = Some [0, 1, 2] \<and>
   epsilon (projr (ql_train example_cost_model half_choice half_router 0 2 5)) = 297/1000"
  by (simp add: run_eval)

end
